theory Spec2Isabelle
  imports Complex_Main
begin

section \<open>The billiards core of game.cpp\<close>

text \<open>
  The source computes in \<^verbatim>\<open>float\<close>. The embedding reads a \<^verbatim>\<open>float\<close> as a real
  number and an operation as the exact one, with one exception: the squared length
  \<^verbatim>\<open>x * x + y * y\<close> by whose square root \<^verbatim>\<open>normalizedVector\<close> and
  \<^verbatim>\<open>vectorProjecction\<close> divide, and the numerator that \<^verbatim>\<open>vectorProjecction\<close> divides,
  are read with the range of \<^verbatim>\<open>float\<close>, because a squared length that is zero or
  infinite and a numerator that is infinite change what the division returns. In single
  precision, rounding to nearest, a product of magnitude at most \<^verbatim>\<open>2^-150\<close> is rounded
  to zero, and a result of \<^verbatim>\<open>2^128 - 2^103\<close> or more is infinite. Rounding inside that
  range, and the range of every other operation, are outside the model.

  Where the source divides by a length that is zero the model stops with
  \<open>ZeroLength\<close>, where the numerator of \<^verbatim>\<open>vectorProjecction\<close> is infinite it stops
  with \<open>Overflow\<close>, and where the source follows a null ball pointer it stops with
  \<open>NullPointer\<close>: a result \<open>Inl e\<close> says that the run left the behaviour the
  source defines, \<open>Inr v\<close> is the ordinary result.
\<close>

datatype failure = ZeroLength | NullPointer | Overflow

subsection \<open>The range of float\<close>

text \<open>
  \<^verbatim>\<open>x * x\<close> as far as the range of \<^verbatim>\<open>float\<close> goes: a square of at most
  \<^verbatim>\<open>2^-150\<close>, half the least positive \<^verbatim>\<open>float\<close>, is rounded to zero.
\<close>

definition floatSquare :: "real \<Rightarrow> real" where
  "floatSquare x = (if x * x \<le> 1 / 2 ^ 150 then 0 else x * x)"

text \<open>
  A result of at least \<^verbatim>\<open>2^128 - 2^103\<close>, half a step above the greatest finite
  \<^verbatim>\<open>float\<close>, is rounded to infinity.
\<close>

definition floatInfinite :: "real \<Rightarrow> bool" where
  "floatInfinite r \<longleftrightarrow> 2 ^ 128 - 2 ^ 103 \<le> r"

subsection \<open>Vector2\<close>

text \<open>The fields \<^verbatim>\<open>x\<close> and \<^verbatim>\<open>y\<close> of the class are written \<open>X\<close> and \<open>Y\<close>.\<close>

record Vector2 =
  X :: real
  Y :: real

text \<open>
  \<^verbatim>\<open>normalizedVector\<close>. With an infinite length both quotients are zero; with a zero
  length the source divides by zero.
\<close>

definition normalizedVector :: "Vector2 \<Rightarrow> failure + Vector2" where
  "normalizedVector v =
     (let squaredLength = floatSquare (X v) + floatSquare (Y v) in
      if floatInfinite squaredLength then Inr \<lparr>X = 0, Y = 0\<rparr>
      else
        (let vectorLength = sqrt squaredLength in
         if vectorLength = 0 then Inl ZeroLength
         else Inr \<lparr>X = X v / vectorLength, Y = Y v / vectorLength\<rparr>))"

subsection \<open>Params\<close>

definition width :: real where "width = 15"
definition height :: real where "height = 8"
definition pocketRadius :: real where "pocketRadius = 0.4"

definition pocketsPositions :: "Vector2 list" where
  "pocketsPositions =
     [\<lparr>X = - 0.5 * width, Y = - 0.5 * height\<rparr>,
      \<lparr>X = 0, Y = - 0.5 * height\<rparr>,
      \<lparr>X = 0.5 * width, Y = - 0.5 * height\<rparr>,
      \<lparr>X = - 0.5 * width, Y = 0.5 * height\<rparr>,
      \<lparr>X = 0, Y = 0.5 * height\<rparr>,
      \<lparr>X = 0.5 * width, Y = 0.5 * height\<rparr>]"

definition ballsPositions :: "Vector2 list" where
  "ballsPositions =
     [\<lparr>X = - 0.3 * width, Y = 0\<rparr>,
      \<lparr>X = 0.2 * width, Y = 0\<rparr>,
      \<lparr>X = 0.25 * width, Y = 0.05 * height\<rparr>,
      \<lparr>X = 0.25 * width, Y = - 0.05 * height\<rparr>,
      \<lparr>X = 0.3 * width, Y = 0.1 * height\<rparr>,
      \<lparr>X = 0.3 * width, Y = 0\<rparr>,
      \<lparr>X = 0.3 * width, Y = - 0.1 * height\<rparr>]"

definition frictionDeceleration :: real where "frictionDeceleration = 0.003"
definition strikePower :: real where "strikePower = 1"
definition radius :: real where "radius = 0.3"
definition chargeTime :: real where "chargeTime = 1"

subsection \<open>BillBall\<close>

text \<open>A \<^verbatim>\<open>Scene::Mesh*\<close> is an opaque handle, here a number.\<close>

record BillBall =
  position :: Vector2
  speed :: Vector2
  gameMesh :: nat

definition getPosition :: "BillBall \<Rightarrow> Vector2" where
  "getPosition b = position b"

definition getSpeed :: "BillBall \<Rightarrow> Vector2" where
  "getSpeed b = speed b"

definition getMesh :: "BillBall \<Rightarrow> nat" where
  "getMesh b = gameMesh b"

text \<open>The method reads the ball and returns a vector; its argument \<open>dt\<close> is unused.\<close>

definition getNextPosition :: "BillBall \<Rightarrow> real \<Rightarrow> Vector2" where
  "getNextPosition b dt =
     \<lparr>X = X (position b) + X (speed b), Y = Y (position b) + Y (speed b)\<rparr>"

definition setPosition :: "BillBall \<Rightarrow> Vector2 \<Rightarrow> BillBall" where
  "setPosition b newPosition = b\<lparr>position := \<lparr>X = X newPosition, Y = Y newPosition\<rparr>\<rparr>"

definition setSpeed :: "BillBall \<Rightarrow> Vector2 \<Rightarrow> BillBall" where
  "setSpeed b newSpeed = b\<lparr>speed := \<lparr>X = X newSpeed, Y = Y newSpeed\<rparr>\<rparr>"

text \<open>The constructor: the speed starts as \<open>(0, 0)\<close>.\<close>

definition newBillBall :: "Vector2 \<Rightarrow> nat \<Rightarrow> BillBall" where
  "newBillBall ballPosition mesh =
     \<lparr>position = \<lparr>X = X ballPosition, Y = Y ballPosition\<rparr>,
      speed = \<lparr>X = 0, Y = 0\<rparr>, gameMesh = mesh\<rparr>"

definition strike :: "BillBall \<Rightarrow> Vector2 \<Rightarrow> real \<Rightarrow> failure + BillBall" where
  "strike b direction force =
     (case normalizedVector direction of
        Inl e \<Rightarrow> Inl e
      | Inr d \<Rightarrow>
          Inr (b\<lparr>speed := \<lparr>X = X (speed b) + X d * force,
                            Y = Y (speed b) + Y d * force\<rparr>\<rparr>))"

subsection \<open>PhysicEvents\<close>

text \<open>
  \<^verbatim>\<open>vectorProjecction\<close>. The numerator of \<^verbatim>\<open>pr\<close> is read with the range of
  \<^verbatim>\<open>float\<close> too: where one of its products or their sum is infinite, the result has
  a component that is infinite or not a number, and the model stops with \<open>Overflow\<close>.
  With a finite numerator and an infinite length \<^verbatim>\<open>pr\<close> is zero, and so is the result.
\<close>

definition vectorProjecction :: "Vector2 \<Rightarrow> Vector2 \<Rightarrow> failure + Vector2" where
  "vectorProjecction a b =
     (let squaredLength = floatSquare (X b) + floatSquare (Y b) in
      if floatInfinite \<bar>X a * X b\<bar> \<or> floatInfinite \<bar>Y a * Y b\<bar> \<or>
         floatInfinite \<bar>X a * X b + Y a * Y b\<bar>
      then Inl Overflow
      else if floatInfinite squaredLength then Inr \<lparr>X = 0, Y = 0\<rparr>
      else
        (let len = sqrt squaredLength in
         if len = 0 then Inl ZeroLength
         else
           (let pr = (X a * X b + Y a * Y b) / len in
            case normalizedVector b of
              Inl e \<Rightarrow> Inl e
            | Inr t \<Rightarrow> Inr \<lparr>X = X t * pr, Y = Y t * pr\<rparr>)))"

text \<open>
  The four tests of \<^verbatim>\<open>ricochet\<close> run in the source's order, each on the ball as the
  tests before it left it; the locals \<open>x0\<close> and \<open>y0\<close> (\<^verbatim>\<open>x\<close> and \<^verbatim>\<open>y\<close> in the
  source) are read once, before the first test.
\<close>

definition ricochet :: "BillBall \<Rightarrow> BillBall" where
  "ricochet curBall =
     (let x0 = X (getPosition curBall); y0 = Y (getPosition curBall);
          b1 = (if x0 + radius > 0.5 * width
                then (let difference = x0 + radius - 0.5 * width;
                          c = setPosition curBall \<lparr>X = x0 - difference * 2, Y = y0\<rparr>
                      in setSpeed c \<lparr>X = - X (getSpeed c), Y = Y (getSpeed c)\<rparr>)
                else curBall);
          b2 = (if X (getPosition b1) - radius < - 0.5 * width
                then (let difference = - 0.5 * width - x0 + radius;
                          c = setPosition b1 \<lparr>X = x0 + difference * 2, Y = y0\<rparr>
                      in setSpeed c \<lparr>X = - X (getSpeed c), Y = Y (getSpeed c)\<rparr>)
                else b1);
          b3 = (if Y (getPosition b2) + radius > 0.5 * height
                then (let difference = y0 + radius - 0.5 * height;
                          c = setPosition b2 \<lparr>X = x0, Y = y0 - difference * 2\<rparr>
                      in setSpeed c \<lparr>X = X (getSpeed c), Y = - Y (getSpeed c)\<rparr>)
                else b2);
          b4 = (if Y (getPosition b3) - radius < - 0.5 * height
                then (let difference = - 0.5 * height - y0 + radius;
                          c = setPosition b3 \<lparr>X = x0, Y = y0 + difference * 2\<rparr>
                      in setSpeed c \<lparr>X = X (getSpeed c), Y = - Y (getSpeed c)\<rparr>)
                else b3)
      in b4)"

text \<open>
  \<^verbatim>\<open>collide\<close> on the two ball objects: both new speeds are computed from the balls as
  they are on entry, then written.
\<close>

definition collide :: "BillBall \<Rightarrow> BillBall \<Rightarrow> failure + BillBall \<times> BillBall" where
  "collide ball1 ball2 =
     (let x1 = X (getPosition ball1); x2 = X (getPosition ball2);
          y1 = Y (getPosition ball1); y2 = Y (getPosition ball2);
          guideVector = \<lparr>X = x2 - x1, Y = y2 - y1\<rparr>
      in case vectorProjecction (getSpeed ball1) guideVector of
           Inl e \<Rightarrow> Inl e
         | Inr g1 \<Rightarrow>
             (case vectorProjecction (getSpeed ball2) guideVector of
                Inl e \<Rightarrow> Inl e
              | Inr g2 \<Rightarrow>
                  (let newSpeed1 = \<lparr>X = X (getSpeed ball1) - X g1 + X g2,
                                    Y = Y (getSpeed ball1) - Y g1 + Y g2\<rparr>;
                       newSpeed2 = \<lparr>X = X (getSpeed ball2) + X g1 - X g2,
                                    Y = Y (getSpeed ball2) + Y g1 - Y g2\<rparr>
                   in Inr (setSpeed ball1 newSpeed1, setSpeed ball2 newSpeed2))))"

subsection \<open>Table and Game\<close>

text \<open>
  The calls into the presentation layer, in the order they are made. Their bodies are
  not part of the source file; the model records each call with its arguments.
\<close>

datatype SceneCall =
  destroyMesh nat
| placeMesh nat real real real
| updateProgressBar real

text \<open>
  The state of the session after \<^verbatim>\<open>init\<close>. The ball objects made with \<^verbatim>\<open>new\<close> live
  in \<open>heap\<close>, an object's address is its index there, and no object is ever freed.
  \<open>billBalls\<close> is the table's array of seven ball pointers, \<open>None\<close> for \<^verbatim>\<open>NULL\<close>;
  \<open>ballToHit\<close> is a pointer too, so it keeps naming the cue ball's object after the
  ball's slot has been cleared. \<open>scene\<close> lists the presentation calls made so far,
  the latest last.
\<close>

record Game =
  heap :: "BillBall list"
  billBalls :: "nat option list"
  ballToHit :: nat
  isChargingShot :: bool
  shotChargeProgress :: real
  scene :: "SceneCall list"

definition distance :: "Vector2 \<Rightarrow> Vector2 \<Rightarrow> real" where
  "distance v1 v2 = sqrt ((X v1 - X v2) * (X v1 - X v2) + (Y v1 - Y v2) * (Y v1 - Y v2))"

definition score :: "nat \<Rightarrow> Game \<Rightarrow> failure + Game" where
  "score ballIndex s =
     (case billBalls s ! ballIndex of
        None \<Rightarrow> Inl NullPointer
      | Some a \<Rightarrow>
          Inr (s\<lparr>scene := scene s @ [destroyMesh (getMesh (heap s ! a))],
                 billBalls := (billBalls s)[ballIndex := None]\<rparr>))"

text \<open>
  The loop over the six pockets (lines 336 to 344 of \<^verbatim>\<open>update\<close>), on the pockets
  still to be tested. It carries the flag \<^verbatim>\<open>scored\<close> and the state, and does not
  leave early.
\<close>

fun pocketsLoop :: "nat \<Rightarrow> Vector2 \<Rightarrow> Vector2 list \<Rightarrow> bool \<times> Game \<Rightarrow> failure + bool \<times> Game" where
  "pocketsLoop i positionToMove [] (scored, s) = Inr (scored, s)"
| "pocketsLoop i positionToMove (pocketVector # ps) (scored, s) =
     (if distance positionToMove pocketVector < pocketRadius
      then (case score i s of
              Inl e \<Rightarrow> Inl e
            | Inr s' \<Rightarrow> pocketsLoop i positionToMove ps (True, s'))
      else pocketsLoop i positionToMove ps (scored, s))"

text \<open>Friction on the current ball (lines 348 to 361 of \<^verbatim>\<open>update\<close>).\<close>

definition friction :: "BillBall \<Rightarrow> failure + BillBall" where
  "friction curBall =
     (let vx = X (getSpeed curBall); vy = Y (getSpeed curBall) in
      if vx \<noteq> 0 \<or> vy \<noteq> 0
      then
        (if vx * vx + vy * vy \<le> frictionDeceleration * frictionDeceleration * 1.1
         then Inr (setSpeed curBall \<lparr>X = 0, Y = 0\<rparr>)
         else
           (case normalizedVector (getSpeed curBall) of
              Inl e \<Rightarrow> Inl e
            | Inr n \<Rightarrow>
                (let deceleration = \<lparr>X = - X n * frictionDeceleration,
                                     Y = - Y n * frictionDeceleration\<rparr>
                 in Inr (setSpeed curBall \<lparr>X = vx + X deceleration, Y = vy + Y deceleration\<rparr>))))
      else Inr curBall)"

text \<open>The test of lines 363 to 366: the ball's extent at \<open>p\<close> crosses an edge.\<close>

definition outside :: "Vector2 \<Rightarrow> bool" where
  "outside p =
     (X p + radius > 0.5 * width \<or> X p - radius < - 0.5 * width \<or>
      Y p + radius > 0.5 * height \<or> Y p - radius < - 0.5 * height)"

text \<open>
  The boundary step (lines 363 to 371) on the current ball and \<^verbatim>\<open>positionToMove\<close>;
  it returns both.
\<close>

definition boundary :: "BillBall \<Rightarrow> Vector2 \<Rightarrow> BillBall \<times> Vector2" where
  "boundary curBall positionToMove =
     (if outside positionToMove
      then (let c = ricochet (setPosition curBall positionToMove) in (c, getPosition c))
      else (curBall, positionToMove))"

text \<open>
  The loop over the partners \<open>l\<close> (lines 373 to 381), on the indices still to be
  visited. \<open>i\<close> is the current slot and \<open>a\<close> the address in it; the loop carries
  \<^verbatim>\<open>positionToMove\<close> and the state.
\<close>

fun collisions :: "nat \<Rightarrow> nat \<Rightarrow> nat list \<Rightarrow> Vector2 \<times> Game \<Rightarrow> failure + Vector2 \<times> Game" where
  "collisions i a [] (positionToMove, s) = Inr (positionToMove, s)"
| "collisions i a (l # ls) (positionToMove, s) =
     (case billBalls s ! l of
        None \<Rightarrow> collisions i a ls (positionToMove, s)
      | Some a2 \<Rightarrow>
          if l \<noteq> i \<and> distance positionToMove (getPosition (heap s ! a2)) \<le> 2 * radius
          then (case collide (heap s ! a) (heap s ! a2) of
                  Inl e \<Rightarrow> Inl e
                | Inr (c1, c2) \<Rightarrow>
                    collisions i a ls
                      (getPosition (heap s ! a), s\<lparr>heap := (heap s)[a := c1, a2 := c2]\<rparr>))
          else collisions i a ls (positionToMove, s))"

text \<open>
  The first part of the loop body (lines 333 to 371) for the ball at address \<open>a\<close> in
  slot \<open>i\<close>: the predicted position, the pocket test, and for a ball that did not score
  friction and the boundary step. It returns \<^verbatim>\<open>scored\<close>, \<^verbatim>\<open>positionToMove\<close> and the
  state.
\<close>

definition moveBall :: "real \<Rightarrow> nat \<Rightarrow> nat \<Rightarrow> Game \<Rightarrow> failure + bool \<times> Vector2 \<times> Game" where
  "moveBall dt i a s =
     (let positionToMove = getNextPosition (heap s ! a) dt in
      case pocketsLoop i positionToMove pocketsPositions (False, s) of
        Inl e \<Rightarrow> Inl e
      | Inr (scored, s1) \<Rightarrow>
          if scored then Inr (True, positionToMove, s1)
          else
            (case friction (heap s1 ! a) of
               Inl e \<Rightarrow> Inl e
             | Inr c \<Rightarrow>
                 (let (c', p) = boundary c positionToMove
                  in Inr (False, p, s1\<lparr>heap := (heap s1)[a := c']\<rparr>))))"

text \<open>
  The body of the loop over the slots (lines 330 to 387), for slot \<open>i\<close>: the first
  part, then for a ball that did not score the loop over the partners and the commit
  of \<^verbatim>\<open>positionToMove\<close> to the ball and to its mesh.
\<close>

definition updateBall :: "real \<Rightarrow> nat \<Rightarrow> Game \<Rightarrow> failure + Game" where
  "updateBall dt i s =
     (case billBalls s ! i of
        None \<Rightarrow> Inr s
      | Some a \<Rightarrow>
          (case moveBall dt i a s of
             Inl e \<Rightarrow> Inl e
           | Inr (scored, p, s2) \<Rightarrow>
               if scored then Inr s2
               else
                 (case collisions i a [Suc i ..< length (billBalls s2)] (p, s2) of
                    Inl e \<Rightarrow> Inl e
                  | Inr (p', s3) \<Rightarrow>
                      (let s4 = s3\<lparr>heap := (heap s3)[a := setPosition (heap s3 ! a) p']\<rparr>
                       in case billBalls s4 ! i of
                            None \<Rightarrow> Inl NullPointer
                          | Some a' \<Rightarrow>
                              Inr (s4\<lparr>scene := scene s4 @
                                     [placeMesh (getMesh (heap s4 ! a'))
                                        (X (getPosition (heap s4 ! a)))
                                        (Y (getPosition (heap s4 ! a))) 0]\<rparr>)))))"

fun ballsLoop :: "real \<Rightarrow> nat list \<Rightarrow> Game \<Rightarrow> failure + Game" where
  "ballsLoop dt [] s = Inr s"
| "ballsLoop dt (i # is) s =
     (case updateBall dt i s of
        Inl e \<Rightarrow> Inl e
      | Inr s' \<Rightarrow> ballsLoop dt is s')"

text \<open>The charge step and the progress bar (lines 324 to 326).\<close>

definition charge :: "real \<Rightarrow> Game \<Rightarrow> Game" where
  "charge dt s =
     (let s1 = (if isChargingShot s
                then s\<lparr>shotChargeProgress := min (shotChargeProgress s + dt / chargeTime) 1\<rparr>
                else s)
      in s1\<lparr>scene := scene s1 @ [updateProgressBar (shotChargeProgress s1)]\<rparr>)"

definition update :: "real \<Rightarrow> Game \<Rightarrow> failure + Game" where
  "update dt s = ballsLoop dt [0 ..< length (billBalls s)] (charge dt s)"

definition mouseButtonPressed :: "real \<Rightarrow> real \<Rightarrow> Game \<Rightarrow> Game" where
  "mouseButtonPressed mx my s = s\<lparr>isChargingShot := True\<rparr>"

definition mouseButtonReleased :: "real \<Rightarrow> real \<Rightarrow> Game \<Rightarrow> failure + Game" where
  "mouseButtonReleased mx my s =
     (let c = heap s ! ballToHit s;
          direction = \<lparr>X = mx - X (getPosition c), Y = my - Y (getPosition c)\<rparr>
      in case strike c direction (shotChargeProgress s * strikePower) of
           Inl e \<Rightarrow> Inl e
         | Inr c' \<Rightarrow>
             Inr (s\<lparr>heap := (heap s)[ballToHit s := c'],
                    isChargingShot := False, shotChargeProgress := 0\<rparr>))"

text \<open>
  \<^verbatim>\<open>Table::init\<close> on the fresh table: seven balls at \<open>ballsPositions\<close>, slot \<open>i\<close>
  pointing to the \<open>i\<close>-th object, the cue ball in slot 0. \<open>meshes\<close> are the handles
  that \<^verbatim>\<open>Scene::createBallMesh\<close> returned. The pocket meshes, which only \<^verbatim>\<open>init\<close> and
  \<^verbatim>\<open>deinit\<close> touch, and the calls \<^verbatim>\<open>init\<close> makes into the presentation layer are
  left out.
\<close>

definition init :: "nat list \<Rightarrow> Game" where
  "init meshes =
     \<lparr>heap = map (\<lambda>i. newBillBall (ballsPositions ! i) (meshes ! i)) [0 ..< 7],
      billBalls = map Some [0 ..< 7],
      ballToHit = 0,
      isChargingShot = False,
      shotChargeProgress = 0,
      scene = []\<rparr>"

subsection \<open>The host's calls\<close>

datatype Event = Update real | Pressed real real | Released real real

fun handle :: "Event \<Rightarrow> Game \<Rightarrow> failure + Game" where
  "handle (Update dt) s = update dt s"
| "handle (Pressed mx my) s = Inr (mouseButtonPressed mx my s)"
| "handle (Released mx my) s = mouseButtonReleased mx my s"

fun run :: "Event list \<Rightarrow> Game \<Rightarrow> failure + Game" where
  "run [] s = Inr s"
| "run (e # es) s = (case handle e s of Inl x \<Rightarrow> Inl x | Inr s' \<Rightarrow> run es s')"

subsection \<open>Notions the properties are stated with\<close>

text \<open>The length of a vector, in exact arithmetic.\<close>

definition magnitude :: "Vector2 \<Rightarrow> real" where
  "magnitude v = sqrt (X v * X v + Y v * Y v)"

text \<open>
  The vector \<open>v\<close> is in range: it is not the zero vector, the square of each of its
  components that is not zero is at least \<^verbatim>\<open>2^-126\<close>, the least normal \<^verbatim>\<open>float\<close> (a
  smaller square keeps only some of its bits, and one of at most \<^verbatim>\<open>2^-150\<close> none),
  and its squared length is at most \<^verbatim>\<open>2^127\<close>, half of what \<^verbatim>\<open>float\<close> rounds to
  infinity. The squared length that \<^verbatim>\<open>normalizedVector\<close> and \<^verbatim>\<open>vectorProjecction\<close>
  compute for such a vector is \<open>X v * X v + Y v * Y v\<close>, and it is finite.
\<close>

definition inRange :: "Vector2 \<Rightarrow> bool" where
  "inRange v \<longleftrightarrow>
     (X v \<noteq> 0 \<or> Y v \<noteq> 0) \<and>
     (X v = 0 \<or> 1 / 2 ^ 126 \<le> X v * X v) \<and>
     (Y v = 0 \<or> 1 / 2 ^ 126 \<le> Y v * Y v) \<and>
     X v * X v + Y v * Y v \<le> 2 ^ 127"

text \<open>
  The table is well formed when it has its seven slots, every pointer in a slot names
  an object of the heap, and no two slots hold the same pointer. \<^verbatim>\<open>Table::init\<close>
  leaves it so, and the only later write to a slot stores \<^verbatim>\<open>NULL\<close>.
\<close>

definition wellFormed :: "Game \<Rightarrow> bool" where
  "wellFormed s \<longleftrightarrow>
     length (billBalls s) = 7 \<and>
     (\<forall>i < 7. \<forall>a. billBalls s ! i = Some a \<longrightarrow>
        a < length (heap s) \<and> (\<forall>j < 7. billBalls s ! j = Some a \<longrightarrow> j = i))"

text \<open>
  At the turn of slot \<open>i\<close> in state \<open>s\<close> the ball's predicted position is within
  \<^verbatim>\<open>pocketRadius\<close> of a pocket, which is the test of line 339.
\<close>

definition pocketed :: "real \<Rightarrow> nat \<Rightarrow> Game \<Rightarrow> bool" where
  "pocketed dt i s =
     (case billBalls s ! i of
        None \<Rightarrow> False
      | Some a \<Rightarrow>
          \<exists>q \<in> set pocketsPositions. distance (getNextPosition (heap s ! a) dt) q < pocketRadius)"

text \<open>
  At the turn of slot \<open>j\<close> in state \<open>s\<close> the loop over the partners calls
  \<^verbatim>\<open>collide\<close> on the balls of slots \<open>j\<close> and \<open>l\<close>: the ball of slot \<open>j\<close> has not
  scored, and after the partners before \<open>l\<close> the test of lines 375 and 376 holds
  for \<open>l\<close>.
\<close>

definition hits :: "real \<Rightarrow> nat \<Rightarrow> nat \<Rightarrow> Game \<Rightarrow> bool" where
  "hits dt j l s =
     (case billBalls s ! j of
        None \<Rightarrow> False
      | Some a \<Rightarrow>
          (case moveBall dt j a s of
             Inl e \<Rightarrow> False
           | Inr (scored, p, s2) \<Rightarrow>
               \<not> scored \<and> j < l \<and> l < length (billBalls s2) \<and>
               (case collisions j a [Suc j ..< l] (p, s2) of
                  Inl e \<Rightarrow> False
                | Inr (p', s3) \<Rightarrow>
                    (case billBalls s3 ! l of
                       None \<Rightarrow> False
                     | Some a2 \<Rightarrow>
                         l \<noteq> j \<and> distance p' (getPosition (heap s3 ! a2)) \<le> 2 * radius))))"

text \<open>
  In the turns of the slots \<open>js\<close>, run in this order from state \<open>s\<close>, no ball
  collides with the ball of slot \<open>i\<close> as its partner.
\<close>

fun untouchedBy :: "real \<Rightarrow> nat \<Rightarrow> nat list \<Rightarrow> Game \<Rightarrow> bool" where
  "untouchedBy dt i [] s = True"
| "untouchedBy dt i (j # js) s =
     (\<not> hits dt j i s \<and>
      (case updateBall dt j s of Inl e \<Rightarrow> True | Inr s' \<Rightarrow> untouchedBy dt i js s'))"

text \<open>
  In the frame \<open>update dt s\<close> the ball of slot \<open>i\<close> is not captured and takes part
  in no collision: no ball of a lower slot collides with it, and at its own turn it
  is not pocketed and collides with no partner.
\<close>

definition undisturbed :: "real \<Rightarrow> nat \<Rightarrow> Game \<Rightarrow> bool" where
  "undisturbed dt i s \<longleftrightarrow>
     untouchedBy dt i [0 ..< i] (charge dt s) \<and>
     (case ballsLoop dt [0 ..< i] (charge dt s) of
        Inl e \<Rightarrow> True
      | Inr t \<Rightarrow> \<not> pocketed dt i t \<and> (\<forall>l \<in> set [Suc i ..< 7]. \<not> hits dt i l t))"

text \<open>The ball of slot \<open>i\<close> is undisturbed in each of the frames \<open>dts\<close>, run from \<open>s\<close>.\<close>

fun quiet :: "nat \<Rightarrow> real list \<Rightarrow> Game \<Rightarrow> bool" where
  "quiet i [] s = True"
| "quiet i (dt # dts) s =
     (undisturbed dt i s \<and>
      (case update dt s of Inl e \<Rightarrow> True | Inr s' \<Rightarrow> quiet i dts s'))"

text \<open>The presentation call \<open>c\<close> is made on the mesh \<open>m\<close>.\<close>

definition onMesh :: "nat \<Rightarrow> SceneCall \<Rightarrow> bool" where
  "onMesh m c =
     (case c of
        destroyMesh h \<Rightarrow> h = m
      | placeMesh h x y z \<Rightarrow> h = m
      | updateProgressBar v \<Rightarrow> False)"


section \<open>Vectors and collisions\<close>

lemma sqrt_sumsq_zero_iff: "sqrt (a * a + b * b) = 0 \<longleftrightarrow> a = 0 \<and> b = 0"
proof -
  have "a * a + b * b = 0 \<longleftrightarrow> a = 0 \<and> b = 0"
    by (metis mult_eq_0_iff sum_squares_eq_zero_iff)
  then show ?thesis by simp
qed

lemma sqrt_sumsq_mult: "sqrt (a * a + b * b) * sqrt (a * a + b * b) = a * a + b * b"
  by (simp add: add_nonneg_nonneg)

lemma floatSquare_le: "floatSquare x \<le> x * x"
  by (simp add: floatSquare_def)

text \<open>For a vector in range the two functions compute what exact arithmetic gives.\<close>

lemma floatSquare_normal: "x = 0 \<or> 1 / 2 ^ 126 \<le> x * x \<Longrightarrow> floatSquare x = x * x"
proof -
  assume a: "x = 0 \<or> 1 / 2 ^ 126 \<le> x * x"
  have "(1 :: real) / 2 ^ 150 < 1 / 2 ^ 126" by simp
  then show ?thesis using a by (auto simp: floatSquare_def)
qed

lemma inRange_length:
  assumes "inRange v"
  shows "floatSquare (X v) + floatSquare (Y v) = X v * X v + Y v * Y v"
    and "\<not> floatInfinite (floatSquare (X v) + floatSquare (Y v))"
    and "sqrt (X v * X v + Y v * Y v) \<noteq> 0"
proof -
  have x: "floatSquare (X v) = X v * X v" and y: "floatSquare (Y v) = Y v * Y v"
    using assms by (simp_all add: inRange_def floatSquare_normal)
  show "floatSquare (X v) + floatSquare (Y v) = X v * X v + Y v * Y v"
    by (simp only: x y)
  have "(2 :: real) ^ 127 < 2 ^ 128 - 2 ^ 103" by simp
  then show "\<not> floatInfinite (floatSquare (X v) + floatSquare (Y v))"
    using assms unfolding x y inRange_def floatInfinite_def by linarith
  show "sqrt (X v * X v + Y v * Y v) \<noteq> 0"
    using assms by (simp add: inRange_def sqrt_sumsq_zero_iff)
qed

text \<open>The components of a vector in range are below \<open>2\<^sup>6\<^sup>4\<close>.\<close>

lemma square_less_imp_abs_less:
  fixes x :: real
  assumes "x * x < r * r" and "0 \<le> r"
  shows "\<bar>x\<bar> < r"
proof -
  have "\<bar>x\<bar>\<^sup>2 < r\<^sup>2" using assms(1) by (simp add: power2_eq_square)
  then show ?thesis using assms(2) by (rule power2_less_imp_less)
qed

lemma inRange_components:
  assumes "inRange v"
  shows "\<bar>X v\<bar> < 2 ^ 64" and "\<bar>Y v\<bar> < 2 ^ 64"
proof -
  have s: "X v * X v + Y v * Y v \<le> 2 ^ 127"
    using assms by (simp add: inRange_def)
  have e: "(2 :: real) ^ 127 < 2 ^ 64 * 2 ^ 64" by simp
  have "X v * X v < 2 ^ 64 * 2 ^ 64"
    using s e zero_le_square [of "Y v"] by linarith
  then show "\<bar>X v\<bar> < 2 ^ 64" by (rule square_less_imp_abs_less) simp
  have "Y v * Y v < 2 ^ 64 * 2 ^ 64"
    using s e zero_le_square [of "X v"] by linarith
  then show "\<bar>Y v\<bar> < 2 ^ 64" by (rule square_less_imp_abs_less) simp
qed

text \<open>
  The numerator of \<^verbatim>\<open>vectorProjecction\<close> is finite for a vector \<open>a\<close> with components
  of at most 10000 and a vector \<open>b\<close> in range.
\<close>

lemma finite_numerator:
  assumes "inRange b" and "\<bar>X a\<bar> \<le> 10000" and "\<bar>Y a\<bar> \<le> 10000"
  shows "\<not> floatInfinite \<bar>X a * X b\<bar>" and "\<not> floatInfinite \<bar>Y a * Y b\<bar>"
    and "\<not> floatInfinite \<bar>X a * X b + Y a * Y b\<bar>"
proof -
  note C = inRange_components [OF assms(1)]
  have x: "\<bar>X a * X b\<bar> \<le> 10000 * 2 ^ 64"
    unfolding abs_mult using assms(2) C(1) by (intro mult_mono) simp_all
  have y: "\<bar>Y a * Y b\<bar> \<le> 10000 * 2 ^ 64"
    unfolding abs_mult using assms(3) C(2) by (intro mult_mono) simp_all
  have e: "2 * (10000 * 2 ^ 64) < (2 :: real) ^ 128 - 2 ^ 103" by simp
  show "\<not> floatInfinite \<bar>X a * X b\<bar>" using x e unfolding floatInfinite_def by linarith
  show "\<not> floatInfinite \<bar>Y a * Y b\<bar>" using y e unfolding floatInfinite_def by linarith
  have "\<bar>X a * X b + Y a * Y b\<bar> \<le> \<bar>X a * X b\<bar> + \<bar>Y a * Y b\<bar>" by (rule abs_triangle_ineq)
  then show "\<not> floatInfinite \<bar>X a * X b + Y a * Y b\<bar>"
    using x y e unfolding floatInfinite_def by linarith
qed

lemma normalizedVector_Inr:
  assumes "inRange v"
  shows "normalizedVector v =
     Inr \<lparr>X = X v / sqrt (X v * X v + Y v * Y v), Y = Y v / sqrt (X v * X v + Y v * Y v)\<rparr>"
  using inRange_length [OF assms] by (simp add: normalizedVector_def Let_def)

lemma vectorProjecction_Inr:
  assumes "inRange b" and "\<bar>X a\<bar> \<le> 10000" and "\<bar>Y a\<bar> \<le> 10000"
  shows "vectorProjecction a b =
     Inr \<lparr>X = X b * (X a * X b + Y a * Y b) / (X b * X b + Y b * Y b),
          Y = Y b * (X a * X b + Y a * Y b) / (X b * X b + Y b * Y b)\<rparr>"
proof -
  let ?n = "sqrt (X b * X b + Y b * Y b)"
  note L = inRange_length [OF assms(1)]
  note F = finite_numerator [OF assms]
  have nn: "?n * ?n = X b * X b + Y b * Y b" by (rule sqrt_sumsq_mult)
  have "\<And>u w. u / ?n * (w / ?n) = u * w / (X b * X b + Y b * Y b)"
    using nn by (metis times_divide_times_eq)
  then show ?thesis
    using L F by (simp add: vectorProjecction_def Let_def normalizedVector_Inr [OF assms(1)])
qed

lemma exchange_dot:
  fixes n :: real
  assumes "n \<noteq> 0" and "n = gx * gx + gy * gy"
  shows "(vx - gx * p / n + gx * q / n) * gx + (vy - gy * p / n + gy * q / n) * gy
         = vx * gx + vy * gy - p + q"
proof -
  have "(vx - gx * p / n + gx * q / n) * gx + (vy - gy * p / n + gy * q / n) * gy
        = vx * gx + vy * gy - p * ((gx * gx + gy * gy) / n) + q * ((gx * gx + gy * gy) / n)"
    by (simp add: algebra_simps add_divide_distrib)
  also have "(gx * gx + gy * gy) / n = 1" using assms by simp
  finally show ?thesis by simp
qed

lemma exchange_dot':
  fixes n :: real
  assumes "n \<noteq> 0" and "n = gx * gx + gy * gy"
  shows "(vx + gx * q / n - gx * p / n) * gx + (vy + gy * q / n - gy * p / n) * gy
         = vx * gx + vy * gy - p + q"
proof -
  have e: "vx + gx * q / n - gx * p / n = vx - gx * p / n + gx * q / n"
    "vy + gy * q / n - gy * p / n = vy - gy * p / n + gy * q / n"
    by simp_all
  show ?thesis unfolding e by (rule exchange_dot [OF assms])
qed

lemma remainder_dot:
  fixes n :: real
  assumes "n \<noteq> 0" and "n = gx * gx + gy * gy"
  shows "(vx - gx * p / n) * gx + (vy - gy * p / n) * gy = vx * gx + vy * gy - p"
  using exchange_dot [OF assms, of vx p 0 vy] by simp

lemma magnitude_nonneg: "0 \<le> magnitude v"
  by (simp add: magnitude_def)

lemma magnitude_square: "magnitude v * magnitude v = X v * X v + Y v * Y v"
  unfolding magnitude_def by (rule sqrt_sumsq_mult)

lemma magnitude_zero_iff: "magnitude v = 0 \<longleftrightarrow> X v = 0 \<and> Y v = 0"
  unfolding magnitude_def by (rule sqrt_sumsq_zero_iff)

lemma abs_le_magnitude: "\<bar>X v\<bar> \<le> magnitude v" "\<bar>Y v\<bar> \<le> magnitude v"
proof -
  have "\<bar>X v\<bar> \<le> sqrt ((X v)\<^sup>2 + (Y v)\<^sup>2)" by (rule real_sqrt_ge_abs1)
  then show "\<bar>X v\<bar> \<le> magnitude v" by (simp add: magnitude_def power2_eq_square)
  have "\<bar>Y v\<bar> \<le> sqrt ((X v)\<^sup>2 + (Y v)\<^sup>2)" by (rule real_sqrt_ge_abs2)
  then show "\<bar>Y v\<bar> \<le> magnitude v" by (simp add: magnitude_def power2_eq_square)
qed

lemma magnitude_le:
  assumes "0 \<le> r" and "X v * X v + Y v * Y v \<le> r * r"
  shows "magnitude v \<le> r"
  unfolding magnitude_def using assms by (intro real_le_lsqrt) (simp_all add: power2_eq_square)

text \<open>A projection is no longer than the vector projected.\<close>

lemma projection_bounded:
  fixes gx gy vx vy :: real
  assumes "gx * gx + gy * gy \<noteq> 0"
  shows "\<bar>gx * (vx * gx + vy * gy) / (gx * gx + gy * gy)\<bar> \<le> sqrt (vx * vx + vy * vy)"
    and "\<bar>gy * (vx * gx + vy * gy) / (gx * gx + gy * gy)\<bar> \<le> sqrt (vx * vx + vy * vy)"
proof -
  define n where "n = gx * gx + gy * gy"
  define p where "p = vx * gx + vy * gy"
  define m where "m = sqrt (vx * vx + vy * vy)"
  have m0: "0 \<le> m" by (simp add: m_def)
  have mm: "m * m = vx * vx + vy * vy" unfolding m_def by (rule sqrt_sumsq_mult)
  have n0: "0 \<le> n" by (simp add: n_def)
  have "n \<noteq> 0" unfolding n_def by (rule assms)
  then have npos: "0 < n" using n0 by linarith
  have "m * m * n - p * p = (vx * gy - vy * gx) * (vx * gy - vy * gx)"
    unfolding mm n_def p_def by (simp add: algebra_simps)
  then have cs: "p * p \<le> m * m * n"
    using zero_le_square [of "vx * gy - vy * gx"] by linarith
  have bound: "\<bar>c * p / n\<bar> \<le> m" if c: "c * c \<le> n" for c
  proof -
    have "(c * p) * (c * p) = (c * c) * (p * p)" by (simp add: algebra_simps)
    also have "\<dots> \<le> n * (m * m * n)"
    proof (rule mult_mono)
      show "c * c \<le> n" by (rule c)
      show "p * p \<le> m * m * n" by (rule cs)
      show "0 \<le> n" by (rule n0)
      show "0 \<le> p * p" by simp
    qed
    also have "\<dots> = (m * n) * (m * n)" by (simp add: algebra_simps)
    finally have "(c * p)\<^sup>2 \<le> (m * n)\<^sup>2" by (simp add: power2_eq_square)
    then have "\<bar>c * p\<bar> \<le> \<bar>m * n\<bar>" by (simp only: abs_le_square_iff)
    then have "\<bar>c * p\<bar> \<le> m * n" using m0 n0 by simp
    then have "\<bar>c * p\<bar> / n \<le> m" using npos by (simp add: pos_divide_le_eq)
    then show ?thesis using npos by simp
  qed
  have "gx * gx \<le> n" "gy * gy \<le> n" by (simp_all add: n_def)
  then show "\<bar>gx * (vx * gx + vy * gy) / (gx * gx + gy * gy)\<bar> \<le> sqrt (vx * vx + vy * vy)"
    and "\<bar>gy * (vx * gx + vy * gy) / (gx * gx + gy * gy)\<bar> \<le> sqrt (vx * vx + vy * vy)"
    using bound unfolding n_def p_def m_def by blast+
qed

text \<open>
  Claim C1, amended. Take two balls whose guide vector, from the first ball's position
  to the second's, is in range and whose speeds have a magnitude of at most 1000.
  Then \<^verbatim>\<open>collide\<close> returns, and with \<open>g1\<close> and \<open>g2\<close> what \<^verbatim>\<open>vectorProjecction\<close>
  returns for the two speeds: \<open>g1\<close> and \<open>g2\<close> are multiples of the guide vector, and
  what is left of each speed after taking its \<open>g\<close> away is perpendicular to the guide
  vector, so \<open>g1\<close> and \<open>g2\<close> are the components of the speeds along the axis; each
  ball leaves with its own perpendicular component and the other ball's component
  along the axis; the sum of the two speeds is unchanged in each coordinate; the
  projection of the first ball's new speed is \<open>g2\<close> and that of the second ball's is
  \<open>g1\<close>. Positions and meshes are not touched.

  The bound on the speeds keeps the numerators of the projections finite in
  \<^verbatim>\<open>float\<close>.
\<close>

theorem collide_exchanges_projections:
  assumes "guide = \<lparr>X = X (position ball2) - X (position ball1),
                     Y = Y (position ball2) - Y (position ball1)\<rparr>"
    and "inRange guide"
    and "magnitude (speed ball1) \<le> 1000" and "magnitude (speed ball2) \<le> 1000"
  shows "\<exists>c1 c2 g1 g2 k1 k2.
     collide ball1 ball2 = Inr (c1, c2) \<and>
     vectorProjecction (speed ball1) guide = Inr g1 \<and>
     vectorProjecction (speed ball2) guide = Inr g2 \<and>
     g1 = \<lparr>X = k1 * X guide, Y = k1 * Y guide\<rparr> \<and>
     g2 = \<lparr>X = k2 * X guide, Y = k2 * Y guide\<rparr> \<and>
     (X (speed ball1) - X g1) * X guide + (Y (speed ball1) - Y g1) * Y guide = 0 \<and>
     (X (speed ball2) - X g2) * X guide + (Y (speed ball2) - Y g2) * Y guide = 0 \<and>
     speed c1 = \<lparr>X = X (speed ball1) - X g1 + X g2, Y = Y (speed ball1) - Y g1 + Y g2\<rparr> \<and>
     speed c2 = \<lparr>X = X (speed ball2) - X g2 + X g1, Y = Y (speed ball2) - Y g2 + Y g1\<rparr> \<and>
     X (speed c1) + X (speed c2) = X (speed ball1) + X (speed ball2) \<and>
     Y (speed c1) + Y (speed c2) = Y (speed ball1) + Y (speed ball2) \<and>
     vectorProjecction (speed c1) guide = Inr g2 \<and>
     vectorProjecction (speed c2) guide = Inr g1 \<and>
     X (speed c1) - X g2 = X (speed ball1) - X g1 \<and>
     Y (speed c1) - Y g2 = Y (speed ball1) - Y g1 \<and>
     X (speed c2) - X g1 = X (speed ball2) - X g2 \<and>
     Y (speed c2) - Y g1 = Y (speed ball2) - Y g2 \<and>
     position c1 = position ball1 \<and> position c2 = position ball2 \<and>
     gameMesh c1 = gameMesh ball1 \<and> gameMesh c2 = gameMesh ball2"
proof -
  define gx where "gx = X (position ball2) - X (position ball1)"
  define gy where "gy = Y (position ball2) - Y (position ball1)"
  have g: "guide = \<lparr>X = gx, Y = gy\<rparr>" using assms(1) by (simp add: gx_def gy_def)
  have Xg: "X guide = gx" and Yg: "Y guide = gy" by (simp_all add: g)
  define n where "n = gx * gx + gy * gy"
  have n0: "n \<noteq> 0"
    using inRange_length(3) [OF assms(2)] by (auto simp: n_def Xg Yg)
  have n0': "gx * gx + gy * gy \<noteq> 0" using n0 by (simp add: n_def)
  have nn: "n = gx * gx + gy * gy" by (rule n_def)
  have P: "vectorProjecction a guide =
      Inr \<lparr>X = gx * (X a * gx + Y a * gy) / n, Y = gy * (X a * gx + Y a * gy) / n\<rparr>"
    if "\<bar>X a\<bar> \<le> 10000" "\<bar>Y a\<bar> \<le> 10000" for a
    using vectorProjecction_Inr [OF assms(2) that] by (simp add: Xg Yg n_def)
  define p where "p = X (speed ball1) * gx + Y (speed ball1) * gy"
  define q where "q = X (speed ball2) * gx + Y (speed ball2) * gy"
  define g1 where "g1 = \<lparr>X = gx * p / n, Y = gy * p / n\<rparr>"
  define g2 where "g2 = \<lparr>X = gx * q / n, Y = gy * q / n\<rparr>"
  have v1: "\<bar>X (speed ball1)\<bar> \<le> 1000" "\<bar>Y (speed ball1)\<bar> \<le> 1000"
    using abs_le_magnitude [of "speed ball1"] assms(3) by linarith+
  have v2: "\<bar>X (speed ball2)\<bar> \<le> 1000" "\<bar>Y (speed ball2)\<bar> \<le> 1000"
    using abs_le_magnitude [of "speed ball2"] assms(4) by linarith+
  have b1: "\<bar>X g1\<bar> \<le> 1000" "\<bar>Y g1\<bar> \<le> 1000"
    using projection_bounded [OF n0', of "X (speed ball1)" "Y (speed ball1)"] assms(3)
    by (simp_all add: g1_def p_def n_def magnitude_def)
  have b2: "\<bar>X g2\<bar> \<le> 1000" "\<bar>Y g2\<bar> \<le> 1000"
    using projection_bounded [OF n0', of "X (speed ball2)" "Y (speed ball2)"] assms(4)
    by (simp_all add: g2_def q_def n_def magnitude_def)
  have p1: "vectorProjecction (speed ball1) guide = Inr g1"
    using P [of "speed ball1"] v1 by (simp add: g1_def p_def)
  have p2: "vectorProjecction (speed ball2) guide = Inr g2"
    using P [of "speed ball2"] v2 by (simp add: g2_def q_def)
  have k1: "g1 = \<lparr>X = (p / n) * X guide, Y = (p / n) * Y guide\<rparr>"
    by (simp add: g1_def Xg Yg)
  have k2: "g2 = \<lparr>X = (q / n) * X guide, Y = (q / n) * Y guide\<rparr>"
    by (simp add: g2_def Xg Yg)
  have o1: "(X (speed ball1) - X g1) * X guide + (Y (speed ball1) - Y g1) * Y guide = 0"
    using remainder_dot [OF n0 nn, of "X (speed ball1)" p "Y (speed ball1)"]
    by (simp add: g1_def Xg Yg p_def)
  have o2: "(X (speed ball2) - X g2) * X guide + (Y (speed ball2) - Y g2) * Y guide = 0"
    using remainder_dot [OF n0 nn, of "X (speed ball2)" q "Y (speed ball2)"]
    by (simp add: g2_def Xg Yg q_def)
  define c1 where "c1 = setSpeed ball1 \<lparr>X = X (speed ball1) - X g1 + X g2,
                                        Y = Y (speed ball1) - Y g1 + Y g2\<rparr>"
  define c2 where "c2 = setSpeed ball2 \<lparr>X = X (speed ball2) + X g1 - X g2,
                                        Y = Y (speed ball2) + Y g1 - Y g2\<rparr>"
  have col: "collide ball1 ball2 = Inr (c1, c2)"
    using p1 p2 unfolding g
    by (simp add: collide_def Let_def getPosition_def getSpeed_def gx_def gy_def
        c1_def c2_def)
  have s1: "speed c1 = \<lparr>X = X (speed ball1) - X g1 + X g2, Y = Y (speed ball1) - Y g1 + Y g2\<rparr>"
    by (simp add: c1_def setSpeed_def)
  have s2: "speed c2 = \<lparr>X = X (speed ball2) - X g2 + X g1, Y = Y (speed ball2) - Y g2 + Y g1\<rparr>"
    by (simp add: c2_def setSpeed_def)
  have w1: "\<bar>X (speed c1)\<bar> \<le> 10000" "\<bar>Y (speed c1)\<bar> \<le> 10000"
    unfolding s1 using v1 b1 b2 by simp_all
  have w2: "\<bar>X (speed c2)\<bar> \<le> 10000" "\<bar>Y (speed c2)\<bar> \<le> 10000"
    unfolding s2 using v2 b1 b2 by simp_all
  have sx: "X (speed c1) * gx + Y (speed c1) * gy = q"
    using exchange_dot [OF n0 nn, of "X (speed ball1)" p q "Y (speed ball1)"]
    by (simp add: c1_def setSpeed_def g1_def g2_def p_def)
  have sy: "X (speed c2) * gx + Y (speed c2) * gy = p"
    using exchange_dot' [OF n0 nn, of "X (speed ball2)" p q "Y (speed ball2)"]
    by (simp add: c2_def setSpeed_def g1_def g2_def q_def)
  have p3: "vectorProjecction (speed c1) guide = Inr g2"
    using P [OF w1] sx by (simp add: g2_def)
  have p4: "vectorProjecction (speed c2) guide = Inr g1"
    using P [OF w2] sy by (simp add: g1_def)
  have rest: "X (speed c1) + X (speed c2) = X (speed ball1) + X (speed ball2)"
    "Y (speed c1) + Y (speed c2) = Y (speed ball1) + Y (speed ball2)"
    "X (speed c1) - X g2 = X (speed ball1) - X g1"
    "Y (speed c1) - Y g2 = Y (speed ball1) - Y g1"
    "X (speed c2) - X g1 = X (speed ball2) - X g2"
    "Y (speed c2) - Y g1 = Y (speed ball2) - Y g2"
    "position c1 = position ball1" "position c2 = position ball2"
    "gameMesh c1 = gameMesh ball1" "gameMesh c2 = gameMesh ball2"
    by (simp_all add: c1_def c2_def setSpeed_def)
  show ?thesis
    by (intro exI [of _ c1] exI [of _ c2] exI [of _ g1] exI [of _ g2]
          exI [of _ "p / n"] exI [of _ "q / n"] conjI
          col p1 p2 k1 k2 o1 o2 s1 s2 rest p3 p4)
qed

text \<open>
  The claim as the specification states it asks only for distinct positions. Two
  balls at \<open>(0, 0)\<close> and \<^verbatim>\<open>(1e-30, 0)\<close> are at distinct positions, but the squared
  length of their guide vector is rounded to zero and \<^verbatim>\<open>vectorProjecction\<close> divides
  by zero: the source leaves both balls with speeds that are not numbers. And for
  balls at \<open>(0, 0)\<close> and \<open>(2, 0)\<close>, the first with speed \<^verbatim>\<open>(3e38, 0)\<close>, the numerator
  of the projection is infinite, and so is \<^verbatim>\<open>pr\<close>: the second component of the
  projection, zero times infinity, is not a number.
\<close>

theorem collide_out_of_range_counterexample:
  "position \<lparr>position = \<lparr>X = 0, Y = 0\<rparr>, speed = \<lparr>X = 1, Y = 0\<rparr>, gameMesh = 0\<rparr>
     \<noteq> position \<lparr>position = \<lparr>X = 1 / 10 ^ 30, Y = 0\<rparr>, speed = \<lparr>X = 0, Y = 0\<rparr>, gameMesh = 1\<rparr> \<and>
   collide \<lparr>position = \<lparr>X = 0, Y = 0\<rparr>, speed = \<lparr>X = 1, Y = 0\<rparr>, gameMesh = 0\<rparr>
           \<lparr>position = \<lparr>X = 1 / 10 ^ 30, Y = 0\<rparr>, speed = \<lparr>X = 0, Y = 0\<rparr>, gameMesh = 1\<rparr>
     = Inl ZeroLength \<and>
   position \<lparr>position = \<lparr>X = 0, Y = 0\<rparr>, speed = \<lparr>X = 3 * 10 ^ 38, Y = 0\<rparr>, gameMesh = 0\<rparr>
     \<noteq> position \<lparr>position = \<lparr>X = 2, Y = 0\<rparr>, speed = \<lparr>X = 0, Y = 0\<rparr>, gameMesh = 1\<rparr> \<and>
   collide \<lparr>position = \<lparr>X = 0, Y = 0\<rparr>, speed = \<lparr>X = 3 * 10 ^ 38, Y = 0\<rparr>, gameMesh = 0\<rparr>
           \<lparr>position = \<lparr>X = 2, Y = 0\<rparr>, speed = \<lparr>X = 0, Y = 0\<rparr>, gameMesh = 1\<rparr>
     = Inl Overflow"
  by (simp add: collide_def Let_def getPosition_def getSpeed_def vectorProjecction_def
      floatSquare_def floatInfinite_def)

text \<open>
  The theorem at a glancing pair: balls at \<open>(0, 0)\<close> and \<open>(0.5, 0)\<close> with speeds
  \<open>(1, 1)\<close> and \<open>(0, 0)\<close> leave with speeds \<open>(0, 1)\<close> and \<open>(1, 0)\<close>.
\<close>

theorem collide_exchanges_projections_witness:
  "inRange \<lparr>X = 0.5, Y = 0\<rparr> \<and>
   magnitude \<lparr>X = 1, Y = 1\<rparr> \<le> 1000 \<and> magnitude \<lparr>X = 0, Y = 0\<rparr> \<le> 1000 \<and>
   collide \<lparr>position = \<lparr>X = 0, Y = 0\<rparr>, speed = \<lparr>X = 1, Y = 1\<rparr>, gameMesh = 0\<rparr>
           \<lparr>position = \<lparr>X = 0.5, Y = 0\<rparr>, speed = \<lparr>X = 0, Y = 0\<rparr>, gameMesh = 1\<rparr>
     = Inr (\<lparr>position = \<lparr>X = 0, Y = 0\<rparr>, speed = \<lparr>X = 0, Y = 1\<rparr>, gameMesh = 0\<rparr>,
            \<lparr>position = \<lparr>X = 0.5, Y = 0\<rparr>, speed = \<lparr>X = 1, Y = 0\<rparr>, gameMesh = 1\<rparr>)"
proof -
  let ?b1 = "\<lparr>position = \<lparr>X = 0, Y = 0\<rparr>, speed = \<lparr>X = 1, Y = 1\<rparr>, gameMesh = 0\<rparr>"
  let ?b2 = "\<lparr>position = \<lparr>X = 0.5, Y = 0\<rparr>, speed = \<lparr>X = 0, Y = 0\<rparr>, gameMesh = 1\<rparr>"
  let ?g = "\<lparr>X = 0.5, Y = 0\<rparr> :: Vector2"
  have gd: "?g = \<lparr>X = X (position ?b2) - X (position ?b1),
                  Y = Y (position ?b2) - Y (position ?b1)\<rparr>" by simp
  have ir: "inRange ?g" by (simp add: inRange_def)
  have m1: "magnitude \<lparr>X = 1, Y = 1\<rparr> \<le> 1000" by (rule magnitude_le) simp_all
  have m2: "magnitude \<lparr>X = 0, Y = 0\<rparr> \<le> 1000" by (rule magnitude_le) simp_all
  have m1': "magnitude (speed ?b1) \<le> 1000" using m1 by simp
  have m2': "magnitude (speed ?b2) \<le> 1000" using m2 by simp
  from collide_exchanges_projections [OF gd ir m1' m2']
  obtain c1 c2 g1 g2 k1 k2 where
    c: "collide ?b1 ?b2 = Inr (c1, c2)"
    and g1: "g1 = \<lparr>X = k1 * X ?g, Y = k1 * Y ?g\<rparr>"
    and g2: "g2 = \<lparr>X = k2 * X ?g, Y = k2 * Y ?g\<rparr>"
    and o1: "(X (speed ?b1) - X g1) * X ?g + (Y (speed ?b1) - Y g1) * Y ?g = 0"
    and o2: "(X (speed ?b2) - X g2) * X ?g + (Y (speed ?b2) - Y g2) * Y ?g = 0"
    and s1: "speed c1 = \<lparr>X = X (speed ?b1) - X g1 + X g2, Y = Y (speed ?b1) - Y g1 + Y g2\<rparr>"
    and s2: "speed c2 = \<lparr>X = X (speed ?b2) - X g2 + X g1, Y = Y (speed ?b2) - Y g2 + Y g1\<rparr>"
    and r: "position c1 = position ?b1" "position c2 = position ?b2"
      "gameMesh c1 = gameMesh ?b1" "gameMesh c2 = gameMesh ?b2"
    by blast
  have "g1 = \<lparr>X = 1, Y = 0\<rparr>" using g1 o1 by simp
  moreover have "g2 = \<lparr>X = 0, Y = 0\<rparr>" using g2 o2 by simp
  ultimately have "c1 = \<lparr>position = \<lparr>X = 0, Y = 0\<rparr>, speed = \<lparr>X = 0, Y = 1\<rparr>, gameMesh = 0\<rparr>"
    "c2 = \<lparr>position = \<lparr>X = 0.5, Y = 0\<rparr>, speed = \<lparr>X = 1, Y = 0\<rparr>, gameMesh = 1\<rparr>"
    using r s1 s2 by (auto intro!: BillBall.equality Vector2.equality)
  then show ?thesis using c ir m1 m2 by simp
qed

section \<open>The prediction and the strike\<close>

text \<open>
  Claim C8. \<^verbatim>\<open>getNextPosition\<close> returns the position plus the speed, coordinate by
  coordinate, whatever \<open>dt\<close> is. The method only reads the ball: the model's function
  returns the vector and no ball.
\<close>

theorem getNextPosition_adds_speed:
  "getNextPosition b dt =
     \<lparr>X = X (position b) + X (speed b), Y = Y (position b) + Y (speed b)\<rparr> \<and>
   getNextPosition b dt = getNextPosition b dt'"
  by (simp add: getNextPosition_def)

lemma normalizedVector_unit:
  assumes "inRange v" and "normalizedVector v = Inr n"
  shows "X n * X n + Y n * Y n = 1"
proof -
  define l where "l = sqrt (X v * X v + Y v * Y v)"
  have l0: "l \<noteq> 0" unfolding l_def by (rule inRange_length(3) [OF assms(1)])
  have n: "n = \<lparr>X = X v / l, Y = Y v / l\<rparr>"
    using assms(2) unfolding normalizedVector_Inr [OF assms(1)] l_def by simp
  have ll: "l * l = X v * X v + Y v * Y v"
    unfolding l_def by (rule sqrt_sumsq_mult)
  have "X n * X n + Y n * Y n = (X v * X v + Y v * Y v) / (l * l)"
    by (simp add: n add_divide_distrib)
  also have "\<dots> = (l * l) / (l * l)" by (simp only: ll)
  also have "\<dots> = 1" using l0 by simp
  finally show ?thesis .
qed

text \<open>
  \<^verbatim>\<open>normalizedVector\<close> returns whenever the squared length it computes is not zero.
\<close>

lemma normalizedVector_returns:
  assumes "floatSquare (X v) + floatSquare (Y v) \<noteq> 0"
  shows "\<exists>n. normalizedVector v = Inr n"
  using assms by (simp add: normalizedVector_def Let_def)

lemma normalizedVector_along_x:
  assumes "inRange \<lparr>X = x, Y = 0\<rparr>" and "0 < x"
  shows "normalizedVector \<lparr>X = x, Y = 0\<rparr> = Inr \<lparr>X = 1, Y = 0\<rparr>"
  using assms(2) by (simp add: normalizedVector_Inr [OF assms(1)])

lemma strike_Inr:
  assumes "normalizedVector direction = Inr n"
  shows "strike b direction force =
     Inr (b\<lparr>speed := \<lparr>X = X (speed b) + X n * force, Y = Y (speed b) + Y n * force\<rparr>\<rparr>)"
  using assms by (simp add: strike_def)

lemma sqrt_square_pos: "0 \<le> a \<Longrightarrow> sqrt (a * a) = a"
  by simp

lemma init_heap_0:
  "heap (init ms) ! 0 = \<lparr>position = \<lparr>X = - 4.5, Y = 0\<rparr>, speed = \<lparr>X = 0, Y = 0\<rparr>, gameMesh = ms ! 0\<rparr>"
  by (simp add: init_def upt_rec newBillBall_def ballsPositions_def width_def)

lemma init_fields:
  "ballToHit (init ms) = 0" "isChargingShot (init ms) = False"
  "shotChargeProgress (init ms) = 0" "length (heap (init ms)) = 7"
  "scene (init ms) = []"
  by (simp_all add: init_def)

text \<open>
  Claim C7, amended. For a direction in range \<^verbatim>\<open>strike\<close> returns; with \<open>n\<close> the
  normalised direction (a unit vector, and \<open>n\<close> times the direction's length is the
  direction) the ball's new speed is its old speed plus \<open>n\<close> times the force, and
  its position and mesh are unchanged. In particular, with the cue ball at
  \<open>(-4.5, 0)\<close> and the charge at 1 (the strike power is the constant 1), a release
  at \<open>(0, 0)\<close> adds exactly \<open>(1, 0)\<close> to the cue ball's speed.
\<close>

theorem strike_adds_impulse:
  "(inRange direction \<longrightarrow>
      (\<exists>n c. normalizedVector direction = Inr n \<and>
             X n * X n + Y n * Y n = 1 \<and>
             X n * sqrt (X direction * X direction + Y direction * Y direction) = X direction \<and>
             Y n * sqrt (X direction * X direction + Y direction * Y direction) = Y direction \<and>
             strike b direction force = Inr c \<and>
             X (speed c) = X (speed b) + X n * force \<and>
             Y (speed c) = Y (speed b) + Y n * force \<and>
             position c = position b \<and> gameMesh c = gameMesh b)) \<and>
   (ballToHit s < length (heap s) \<and>
    position (heap s ! ballToHit s) = \<lparr>X = - 4.5, Y = 0\<rparr> \<and>
    shotChargeProgress s = 1 \<longrightarrow>
      (\<exists>s'. mouseButtonReleased 0 0 s = Inr s' \<and>
            X (speed (heap s' ! ballToHit s')) = X (speed (heap s ! ballToHit s)) + 1 \<and>
            Y (speed (heap s' ! ballToHit s')) = Y (speed (heap s ! ballToHit s)) \<and>
            position (heap s' ! ballToHit s') = position (heap s ! ballToHit s) \<and>
            shotChargeProgress s' = 0 \<and> \<not> isChargingShot s'))"
proof (intro conjI impI)
  assume ir: "inRange direction"
  define l where "l = sqrt (X direction * X direction + Y direction * Y direction)"
  have l0: "l \<noteq> 0" unfolding l_def by (rule inRange_length(3) [OF ir])
  define n where "n = \<lparr>X = X direction / l, Y = Y direction / l\<rparr>"
  have nv: "normalizedVector direction = Inr n"
    by (simp add: normalizedVector_Inr [OF ir] n_def l_def)
  have "X n * l = X direction" "Y n * l = Y direction"
    using l0 by (simp_all add: n_def)
  then show "\<exists>n c. normalizedVector direction = Inr n \<and>
             X n * X n + Y n * Y n = 1 \<and>
             X n * sqrt (X direction * X direction + Y direction * Y direction) = X direction \<and>
             Y n * sqrt (X direction * X direction + Y direction * Y direction) = Y direction \<and>
             strike b direction force = Inr c \<and>
             X (speed c) = X (speed b) + X n * force \<and>
             Y (speed c) = Y (speed b) + Y n * force \<and>
             position c = position b \<and> gameMesh c = gameMesh b"
    using nv normalizedVector_unit [OF ir nv] strike_Inr [OF nv, of b force]
    unfolding l_def by auto
next
  assume a: "ballToHit s < length (heap s) \<and>
    position (heap s ! ballToHit s) = \<lparr>X = - 4.5, Y = 0\<rparr> \<and> shotChargeProgress s = 1"
  have ir: "inRange \<lparr>X = 4.5, Y = 0\<rparr>"
    by (simp add: inRange_def floatSquare_def floatInfinite_def)
  have nv: "normalizedVector \<lparr>X = 4.5, Y = 0\<rparr> = Inr \<lparr>X = 1, Y = 0\<rparr>"
    using normalizedVector_along_x [OF ir] by simp
  show "\<exists>s'. mouseButtonReleased 0 0 s = Inr s' \<and>
            X (speed (heap s' ! ballToHit s')) = X (speed (heap s ! ballToHit s)) + 1 \<and>
            Y (speed (heap s' ! ballToHit s')) = Y (speed (heap s ! ballToHit s)) \<and>
            position (heap s' ! ballToHit s') = position (heap s ! ballToHit s) \<and>
            shotChargeProgress s' = 0 \<and> \<not> isChargingShot s'"
    using a strike_Inr [OF nv]
    by (simp add: mouseButtonReleased_def Let_def getPosition_def strikePower_def)
qed

text \<open>
  The claim as the specification states it asks only for a direction that is not the
  zero vector. The direction \<^verbatim>\<open>(1e-30, 0)\<close> is not zero, but its squared length is
  rounded to zero and \<^verbatim>\<open>normalizedVector\<close> divides by zero: the source leaves the
  ball with a speed that is not a number. The squared length of the direction
  \<^verbatim>\<open>(3e19, 0)\<close> is infinite, the normalised direction is \<open>(0, 0)\<close>, and the strike
  adds nothing whatever the force.
\<close>

theorem strike_extreme_direction_counterexample:
  "X \<lparr>X = 1 / 10 ^ 30, Y = 0\<rparr> \<noteq> 0 \<and>
   strike \<lparr>position = \<lparr>X = 0, Y = 0\<rparr>, speed = \<lparr>X = 0, Y = 0\<rparr>, gameMesh = 0\<rparr>
     \<lparr>X = 1 / 10 ^ 30, Y = 0\<rparr> 1 = Inl ZeroLength \<and>
   X \<lparr>X = 3 * 10 ^ 19, Y = 0\<rparr> \<noteq> 0 \<and>
   strike \<lparr>position = \<lparr>X = 0, Y = 0\<rparr>, speed = \<lparr>X = 0, Y = 0\<rparr>, gameMesh = 0\<rparr>
     \<lparr>X = 3 * 10 ^ 19, Y = 0\<rparr> 1
     = Inr \<lparr>position = \<lparr>X = 0, Y = 0\<rparr>, speed = \<lparr>X = 0, Y = 0\<rparr>, gameMesh = 0\<rparr>"
  by (simp add: strike_def normalizedVector_def Let_def floatSquare_def floatInfinite_def)

text \<open>
  The theorem at the direction \<open>(3, 4)\<close> with force 2, and at the table as \<^verbatim>\<open>init\<close>
  leaves it with the charge set to 1.
\<close>

theorem strike_adds_impulse_witness:
  "inRange \<lparr>X = 3, Y = 4\<rparr> \<and>
   strike \<lparr>position = \<lparr>X = 1, Y = 2\<rparr>, speed = \<lparr>X = 1, Y = 1\<rparr>, gameMesh = 0\<rparr> \<lparr>X = 3, Y = 4\<rparr> 2
     = Inr \<lparr>position = \<lparr>X = 1, Y = 2\<rparr>, speed = \<lparr>X = 11 / 5, Y = 13 / 5\<rparr>, gameMesh = 0\<rparr> \<and>
   ballToHit ((init [0, 1, 2, 3, 4, 5, 6])\<lparr>shotChargeProgress := 1\<rparr>)
     < length (heap ((init [0, 1, 2, 3, 4, 5, 6])\<lparr>shotChargeProgress := 1\<rparr>)) \<and>
   position (heap ((init [0, 1, 2, 3, 4, 5, 6])\<lparr>shotChargeProgress := 1\<rparr>) ! 0) = \<lparr>X = - 4.5, Y = 0\<rparr> \<and>
   (\<exists>s'. mouseButtonReleased 0 0 ((init [0, 1, 2, 3, 4, 5, 6])\<lparr>shotChargeProgress := 1\<rparr>) = Inr s' \<and>
         speed (heap s' ! 0) = \<lparr>X = 1, Y = 0\<rparr> \<and> shotChargeProgress s' = 0)"
proof -
  let ?b = "\<lparr>position = \<lparr>X = 1, Y = 2\<rparr>, speed = \<lparr>X = 1, Y = 1\<rparr>, gameMesh = 0\<rparr>"
  let ?d = "\<lparr>X = 3, Y = 4\<rparr>"
  let ?s = "(init [0, 1, 2, 3, 4, 5, 6])\<lparr>shotChargeProgress := 1\<rparr>"
  note T = strike_adds_impulse [of ?d ?b 2 ?s]
  have five: "sqrt (3 * 3 + 4 * 4) = (5::real)"
    using sqrt_square_pos [of "5::real"] by simp
  have ir: "inRange ?d" by (simp add: inRange_def floatSquare_def floatInfinite_def)
  from T ir obtain n c where nc: "normalizedVector ?d = Inr n \<and>
             X n * X n + Y n * Y n = 1 \<and>
             X n * sqrt (X ?d * X ?d + Y ?d * Y ?d) = X ?d \<and>
             Y n * sqrt (X ?d * X ?d + Y ?d * Y ?d) = Y ?d \<and>
             strike ?b ?d 2 = Inr c \<and>
             X (speed c) = X (speed ?b) + X n * 2 \<and>
             Y (speed c) = Y (speed ?b) + Y n * 2 \<and>
             position c = position ?b \<and> gameMesh c = gameMesh ?b"
    by blast
  have n: "X n * 5 = 3" "Y n * 5 = 4" using nc five by simp_all
  have c: "strike ?b ?d 2 = Inr c" "X (speed c) = 1 + X n * 2" "Y (speed c) = 1 + Y n * 2"
      "position c = position ?b" "gameMesh c = gameMesh ?b"
    using nc by simp_all
  have "X n = 3 / 5" "Y n = 4 / 5" using n by simp_all
  then have "c = \<lparr>position = \<lparr>X = 1, Y = 2\<rparr>, speed = \<lparr>X = 11 / 5, Y = 13 / 5\<rparr>, gameMesh = 0\<rparr>"
    using c by (auto intro!: BillBall.equality Vector2.equality)
  then have A: "strike ?b ?d 2 = Inr \<lparr>position = \<lparr>X = 1, Y = 2\<rparr>, speed = \<lparr>X = 11 / 5, Y = 13 / 5\<rparr>, gameMesh = 0\<rparr>"
    using c by simp
  have len: "ballToHit ?s < length (heap ?s)" by (simp add: init_fields)
  have b0: "ballToHit ?s = 0" by (simp add: init_fields)
  have pos: "position (heap ?s ! 0) = \<lparr>X = - 4.5, Y = 0\<rparr>" by (simp add: init_heap_0)
  from T len pos b0 have "\<exists>s'. mouseButtonReleased 0 0 ?s = Inr s' \<and>
            X (speed (heap s' ! ballToHit s')) = X (speed (heap ?s ! ballToHit ?s)) + 1 \<and>
            Y (speed (heap s' ! ballToHit s')) = Y (speed (heap ?s ! ballToHit ?s)) \<and>
            position (heap s' ! ballToHit s') = position (heap ?s ! ballToHit ?s) \<and>
            shotChargeProgress s' = 0 \<and> \<not> isChargingShot s'"
    by simp
  then obtain s' where r: "mouseButtonReleased 0 0 ?s = Inr s'"
     "X (speed (heap s' ! ballToHit s')) = X (speed (heap ?s ! ballToHit ?s)) + 1"
     "Y (speed (heap s' ! ballToHit s')) = Y (speed (heap ?s ! ballToHit ?s))"
     "shotChargeProgress s' = 0" by blast
  have "ballToHit s' = 0" using r(1) by (auto simp: mouseButtonReleased_def Let_def init_def split: sum.splits)
  then have "speed (heap s' ! 0) = \<lparr>X = 1, Y = 0\<rparr>"
    using r(2,3) b0 by (auto simp: init_heap_0 intro!: Vector2.equality)
  then show ?thesis using A ir len pos r(1,4) by auto
qed

text \<open>
  Claim C9, amended. With no charge in progress (the flag is false and the progress is
  0) and a release point for which the squared length of the direction, from the cue
  ball to the release point, is not rounded to zero, \<^verbatim>\<open>mouseButtonReleased\<close> still
  calls \<^verbatim>\<open>strike\<close> on the cue ball, with force \<open>0 * strikePower = 0\<close>; the call returns
  a ball with the same speed, and the whole state is as before the release.
\<close>

theorem release_without_charge_keeps_speed:
  assumes "ballToHit s < length (heap s)"
    and "\<not> isChargingShot s" and "shotChargeProgress s = 0"
    and "floatSquare (mx - X (position (heap s ! ballToHit s))) +
         floatSquare (my - Y (position (heap s ! ballToHit s))) \<noteq> 0"
  shows "\<exists>c. strike (heap s ! ballToHit s)
              \<lparr>X = mx - X (position (heap s ! ballToHit s)),
               Y = my - Y (position (heap s ! ballToHit s))\<rparr>
              (shotChargeProgress s * strikePower) = Inr c \<and>
            shotChargeProgress s * strikePower = 0 \<and>
            speed c = speed (heap s ! ballToHit s) \<and>
            mouseButtonReleased mx my s =
              Inr (s\<lparr>heap := (heap s)[ballToHit s := c],
                     isChargingShot := False, shotChargeProgress := 0\<rparr>) \<and>
            mouseButtonReleased mx my s = Inr s"
proof -
  let ?c = "heap s ! ballToHit s"
  let ?d = "\<lparr>X = mx - X (position ?c), Y = my - Y (position ?c)\<rparr>"
  have "floatSquare (X ?d) + floatSquare (Y ?d) \<noteq> 0" using assms(4) by simp
  from normalizedVector_returns [OF this] obtain n where nv: "normalizedVector ?d = Inr n" ..
  have st: "strike ?c ?d (shotChargeProgress s * strikePower) = Inr ?c"
    using assms(3) by (simp add: strike_Inr [OF nv])
  have "mouseButtonReleased mx my s = Inr (s\<lparr>heap := (heap s)[ballToHit s := ?c],
                     isChargingShot := False, shotChargeProgress := 0\<rparr>)"
    using st by (simp add: mouseButtonReleased_def Let_def getPosition_def)
  moreover have "s\<lparr>heap := (heap s)[ballToHit s := ?c],
                     isChargingShot := False, shotChargeProgress := 0\<rparr> = s"
    using assms(2,3) by simp
  ultimately show ?thesis using st assms(3) by auto
qed

text \<open>
  The claim as the specification states it asks only for a release point that differs
  from the cue ball's position. On the table as \<^verbatim>\<open>init\<close> leaves it, with the cue ball
  at \<open>(-4.5, 0)\<close>, the release point \<^verbatim>\<open>(-4.5, 1e-30)\<close> differs from it, but the
  squared length of the direction is rounded to zero and \<^verbatim>\<open>normalizedVector\<close> divides
  by zero: the source leaves the cue ball with a speed that is not a number.
\<close>

theorem release_tiny_direction_counterexample:
  "\<not> isChargingShot (init [0, 1, 2, 3, 4, 5, 6]) \<and>
   shotChargeProgress (init [0, 1, 2, 3, 4, 5, 6]) = 0 \<and>
   position (heap (init [0, 1, 2, 3, 4, 5, 6]) ! ballToHit (init [0, 1, 2, 3, 4, 5, 6]))
     = \<lparr>X = - 4.5, Y = 0\<rparr> \<and>
   \<lparr>X = - 4.5, Y = 1 / 10 ^ 30\<rparr>
     \<noteq> position (heap (init [0, 1, 2, 3, 4, 5, 6]) ! ballToHit (init [0, 1, 2, 3, 4, 5, 6])) \<and>
   mouseButtonReleased (- 4.5) (1 / 10 ^ 30) (init [0, 1, 2, 3, 4, 5, 6]) = Inl ZeroLength"
  by (simp add: init_fields init_heap_0 mouseButtonReleased_def Let_def getPosition_def
      strike_def normalizedVector_def floatSquare_def floatInfinite_def)

text \<open>The theorem at the table as \<^verbatim>\<open>init\<close> leaves it, with a release at \<open>(1, 2)\<close>.\<close>

theorem release_without_charge_keeps_speed_witness:
  "ballToHit (init [0, 1, 2, 3, 4, 5, 6]) < length (heap (init [0, 1, 2, 3, 4, 5, 6])) \<and>
   \<not> isChargingShot (init [0, 1, 2, 3, 4, 5, 6]) \<and>
   shotChargeProgress (init [0, 1, 2, 3, 4, 5, 6]) = 0 \<and>
   floatSquare (1 - X (position (heap (init [0, 1, 2, 3, 4, 5, 6]) ! ballToHit (init [0, 1, 2, 3, 4, 5, 6])))) +
   floatSquare (2 - Y (position (heap (init [0, 1, 2, 3, 4, 5, 6]) ! ballToHit (init [0, 1, 2, 3, 4, 5, 6]))))
     \<noteq> 0 \<and>
   mouseButtonReleased 1 2 (init [0, 1, 2, 3, 4, 5, 6]) = Inr (init [0, 1, 2, 3, 4, 5, 6])"
proof -
  let ?s = "init [0, 1, 2, 3, 4, 5, 6]"
  have h: "ballToHit ?s < length (heap ?s)" "\<not> isChargingShot ?s" "shotChargeProgress ?s = 0"
    by (simp_all add: init_fields)
  have d: "floatSquare (1 - X (position (heap ?s ! ballToHit ?s))) +
           floatSquare (2 - Y (position (heap ?s ! ballToHit ?s))) \<noteq> 0"
    by (simp add: init_fields init_heap_0 floatSquare_def)
  from release_without_charge_keeps_speed [OF h d]
  have "mouseButtonReleased 1 2 ?s = Inr ?s" by blast
  then show ?thesis using h d by simp
qed

section \<open>Pockets, friction and the boundary\<close>

lemma sqrt_le_iff_sq: "0 \<le> r \<Longrightarrow> sqrt x \<le> r \<longleftrightarrow> x \<le> r * r"
  by (metis abs_of_nonneg real_sqrt_abs2 real_sqrt_le_iff)

lemma sqrt_less_iff_sq: "0 \<le> r \<Longrightarrow> sqrt x < r \<longleftrightarrow> x < r * r"
  by (metis abs_of_nonneg real_sqrt_abs2 real_sqrt_less_iff)

lemma distance_less_pocket:
  "distance p q < pocketRadius \<longleftrightarrow>
   (X p - X q) * (X p - X q) + (Y p - Y q) * (Y p - Y q) < 0.16"
proof -
  have "sqrt z < 0.4 \<longleftrightarrow> z < 0.4 * 0.4" for z :: real
    by (rule sqrt_less_iff_sq) simp
  moreover have "(0.4::real) * 0.4 = 0.16" by simp
  ultimately show ?thesis unfolding distance_def pocketRadius_def by simp
qed

lemma distance_le_2radius:
  "distance p q \<le> 2 * radius \<longleftrightarrow>
   (X p - X q) * (X p - X q) + (Y p - Y q) * (Y p - Y q) \<le> 0.36"
proof -
  have "sqrt z \<le> 0.6 \<longleftrightarrow> z \<le> 0.6 * 0.6" for z :: real
    by (rule sqrt_le_iff_sq) simp
  moreover have "(0.6::real) * 0.6 = 0.36" "2 * (0.3::real) = 0.6" by simp_all
  ultimately show ?thesis unfolding distance_def radius_def by simp
qed

lemma square_less_bound:
  fixes a :: real
  assumes "a * a + b * b < 0.16"
  shows "\<bar>a\<bar> < 0.4"
proof (rule ccontr)
  assume "\<not> \<bar>a\<bar> < 0.4"
  then have "0.4 \<le> \<bar>a\<bar>" by simp
  then have "0.4 * 0.4 \<le> \<bar>a\<bar> * \<bar>a\<bar>" by (intro mult_mono) simp_all
  then have "0.16 \<le> a * a" by simp
  moreover have "0 \<le> b * b" by simp
  ultimately show False using assms by linarith
qed

lemma near_pocket_box:
  assumes "distance p q < pocketRadius"
  shows "\<bar>X p - X q\<bar> < 0.4 \<and> \<bar>Y p - Y q\<bar> < 0.4"
proof -
  from assms have h: "(X p - X q) * (X p - X q) + (Y p - Y q) * (Y p - Y q) < 0.16"
    by (simp add: distance_less_pocket)
  then have "(Y p - Y q) * (Y p - Y q) + (X p - X q) * (X p - X q) < 0.16" by simp
  with h show ?thesis by (blast intro: square_less_bound)
qed

lemma pocket_coordinates:
  assumes "q \<in> set pocketsPositions"
  shows "(X q = - 7.5 \<or> X q = 0 \<or> X q = 7.5) \<and> (Y q = - 4 \<or> Y q = 4)"
  using assms unfolding pocketsPositions_def width_def height_def by auto

lemma pocket_unique:
  assumes "q \<in> set pocketsPositions" and "q' \<in> set pocketsPositions"
    and "distance p q < pocketRadius" and "distance p q' < pocketRadius"
  shows "q = q'"
proof -
  note b = near_pocket_box [OF assms(3)] near_pocket_box [OF assms(4)]
  note c = pocket_coordinates [OF assms(1)] pocket_coordinates [OF assms(2)]
  have "X q = X q'" using b c by (elim conjE disjE) simp_all
  moreover have "Y q = Y q'" using b c by (elim conjE disjE) simp_all
  ultimately show ?thesis by simp
qed

lemma distinct_pockets: "distinct pocketsPositions"
  by (simp add: pocketsPositions_def width_def height_def)

lemma pocketsLoop_none:
  "\<forall>q \<in> set ps. \<not> distance p q < pocketRadius \<Longrightarrow> pocketsLoop i p ps (sc, s) = Inr (sc, s)"
  by (induction ps) simp_all

lemma pocketsLoop_some:
  assumes "billBalls s ! i = Some a"
    and "distinct ps" and "set ps \<subseteq> set pocketsPositions"
    and "\<exists>q \<in> set ps. distance p q < pocketRadius"
  shows "pocketsLoop i p ps (sc, s) =
     Inr (True, s\<lparr>scene := scene s @ [destroyMesh (gameMesh (heap s ! a))],
                  billBalls := (billBalls s)[i := None]\<rparr>)"
  using assms
proof (induction ps arbitrary: sc)
  case Nil
  then show ?case by simp
next
  case (Cons q ps)
  show ?case
  proof (cases "distance p q < pocketRadius")
    case True
    have "\<forall>q' \<in> set ps. \<not> distance p q' < pocketRadius"
    proof
      fix q' assume q': "q' \<in> set ps"
      show "\<not> distance p q' < pocketRadius"
      proof
        assume "distance p q' < pocketRadius"
        then have "q = q'" using pocket_unique [of q q' p] True q' Cons.prems(3) by auto
        then show False using q' Cons.prems(2) by simp
      qed
    qed
    then show ?thesis
      using True Cons.prems(1) by (simp add: score_def getMesh_def pocketsLoop_none)
  next
    case False
    then have "\<exists>q \<in> set ps. distance p q < pocketRadius" using Cons.prems(4) by auto
    then show ?thesis using False Cons by simp
  qed
qed


lemma magnitude_scaled:
  assumes "0 \<le> k"
  shows "magnitude \<lparr>X = k * X v, Y = k * Y v\<rparr> = k * magnitude v"
proof -
  have "X \<lparr>X = k * X v, Y = k * Y v\<rparr> * X \<lparr>X = k * X v, Y = k * Y v\<rparr>
        + Y \<lparr>X = k * X v, Y = k * Y v\<rparr> * Y \<lparr>X = k * X v, Y = k * Y v\<rparr>
        = (k * k) * (X v * X v + Y v * Y v)"
    by (simp add: algebra_simps)
  then have "magnitude \<lparr>X = k * X v, Y = k * Y v\<rparr> = sqrt ((k * k) * (X v * X v + Y v * Y v))"
    unfolding magnitude_def by simp
  also have "\<dots> = sqrt (k * k) * sqrt (X v * X v + Y v * Y v)"
    by (rule real_sqrt_mult)
  also have "sqrt (k * k) = k" using assms by simp
  finally show ?thesis by (simp add: magnitude_def)
qed

lemma magnitude_along_x: "magnitude \<lparr>X = x, Y = 0\<rparr> = \<bar>x\<bar>"
  by (simp add: magnitude_def)

text \<open>
  What friction does to a ball: nothing to a ball at rest; a ball slower than the
  threshold stops; any other ball keeps its direction, and loses
  \<open>frictionDeceleration\<close> of its speed when its speed is in range. It never fails.
\<close>

lemma friction_rest:
  "speed b = \<lparr>X = 0, Y = 0\<rparr> \<Longrightarrow> friction b = Inr b"
  by (simp add: friction_def getSpeed_def)

lemma friction_stop:
  assumes "X (speed b) \<noteq> 0 \<or> Y (speed b) \<noteq> 0"
    and "magnitude (speed b) * magnitude (speed b)
           \<le> frictionDeceleration * frictionDeceleration * 1.1"
  shows "friction b = Inr (b\<lparr>speed := \<lparr>X = 0, Y = 0\<rparr>\<rparr>)"
  using assms by (simp add: friction_def getSpeed_def setSpeed_def magnitude_square Let_def)

lemma above_threshold:
  assumes "\<not> magnitude v * magnitude v \<le> frictionDeceleration * frictionDeceleration * 1.1"
  shows "frictionDeceleration < magnitude v" and "X v \<noteq> 0 \<or> Y v \<noteq> 0"
proof -
  let ?m = "magnitude v"
  let ?d = frictionDeceleration
  have d0: "0 < ?d" by (simp add: frictionDeceleration_def)
  show dm: "?d < ?m"
  proof (rule ccontr)
    assume "\<not> ?d < ?m"
    then have "?m \<le> ?d" by simp
    then have "?m * ?m \<le> ?d * ?d" using magnitude_nonneg [of v] d0
      by (intro mult_mono) simp_all
    also have "\<dots> \<le> ?d * ?d * 1.1" using d0 by simp
    finally show False using assms by simp
  qed
  then have "?m \<noteq> 0" using d0 by simp
  then show "X v \<noteq> 0 \<or> Y v \<noteq> 0" by (simp add: magnitude_zero_iff)
qed

lemma friction_slow:
  assumes "\<not> magnitude (speed b) * magnitude (speed b)
           \<le> frictionDeceleration * frictionDeceleration * 1.1"
    and "inRange (speed b)"
  shows "friction b =
     Inr (b\<lparr>speed := \<lparr>X = (1 - frictionDeceleration / magnitude (speed b)) * X (speed b),
                       Y = (1 - frictionDeceleration / magnitude (speed b)) * Y (speed b)\<rparr>\<rparr>)"
proof -
  let ?m = "magnitude (speed b)"
  let ?d = frictionDeceleration
  note A = above_threshold [OF assms(1)]
  have nv: "normalizedVector (speed b) = Inr \<lparr>X = X (speed b) / ?m, Y = Y (speed b) / ?m\<rparr>"
    using normalizedVector_Inr [OF assms(2)] by (simp add: magnitude_def)
  have e: "v - v * ?d / ?m = (1 - ?d / ?m) * v" for v
    by (simp add: algebra_simps)
  show ?thesis
    using assms(1) A(2) nv
    by (simp add: friction_def getSpeed_def setSpeed_def magnitude_square Let_def e)
qed

text \<open>
  The length that \<^verbatim>\<open>normalizedVector\<close> computes for a speed above the threshold of
  friction: it is more than \<open>frictionDeceleration\<close> and at most the exact length.
\<close>

lemma computed_length:
  assumes "\<not> magnitude v * magnitude v \<le> frictionDeceleration * frictionDeceleration * 1.1"
  shows "frictionDeceleration < sqrt (floatSquare (X v) + floatSquare (Y v))"
    and "sqrt (floatSquare (X v) + floatSquare (Y v)) \<le> magnitude v"
proof -
  let ?d = frictionDeceleration
  let ?s = "floatSquare (X v) + floatSquare (Y v)"
  have le: "?s \<le> X v * X v + Y v * Y v"
    using floatSquare_le [of "X v"] floatSquare_le [of "Y v"] by simp
  show "sqrt ?s \<le> magnitude v" unfolding magnitude_def using le by simp
  have big: "?d * ?d * 1.1 < X v * X v + Y v * Y v"
    using assms by (simp add: magnitude_square)
  have lx: "X v * X v - 1 / 2 ^ 150 \<le> floatSquare (X v)"
    by (simp add: floatSquare_def)
  have ly: "Y v * Y v - 1 / 2 ^ 150 \<le> floatSquare (Y v)"
    by (simp add: floatSquare_def)
  have tiny: "2 * (1 / 2 ^ 150) \<le> ?d * ?d * 1.1 - ?d * ?d"
    by (simp add: frictionDeceleration_def)
  have "?d * ?d < ?s" using big lx ly tiny by linarith
  then have "?d\<^sup>2 < ?s" by (simp only: power2_eq_square)
  then show "?d < sqrt ?s" by (rule real_less_rsqrt)
qed

text \<open>
  In every case friction multiplies the speed by a factor \<open>k\<close> between 0 and 1. For a
  speed whose squared length is finite the factor is 0 or takes at least
  \<open>frictionDeceleration\<close> from the length.
\<close>

lemma friction_scales:
  "\<exists>k. 0 \<le> k \<and> k \<le> 1 \<and>
       friction b = Inr (b\<lparr>speed := \<lparr>X = k * X (speed b), Y = k * Y (speed b)\<rparr>\<rparr>) \<and>
       (\<not> floatInfinite (X (speed b) * X (speed b) + Y (speed b) * Y (speed b)) \<longrightarrow>
          k = 0 \<or> k * magnitude (speed b) \<le> magnitude (speed b) - frictionDeceleration)"
proof -
  let ?v = "speed b"
  let ?m = "magnitude ?v"
  let ?d = frictionDeceleration
  let ?s = "floatSquare (X ?v) + floatSquare (Y ?v)"
  have d0: "0 < ?d" by (simp add: frictionDeceleration_def)
  consider (rest) "X ?v = 0 \<and> Y ?v = 0"
    | (stop) "X ?v \<noteq> 0 \<or> Y ?v \<noteq> 0" "?m * ?m \<le> ?d * ?d * 1.1"
    | (far) "\<not> ?m * ?m \<le> ?d * ?d * 1.1" "floatInfinite ?s"
    | (slow) "\<not> ?m * ?m \<le> ?d * ?d * 1.1" "\<not> floatInfinite ?s"
    by blast
  then show ?thesis
  proof cases
    case rest
    then have "speed b = \<lparr>X = 0, Y = 0\<rparr>" by simp
    then have "friction b = Inr (b\<lparr>speed := \<lparr>X = 0 * X ?v, Y = 0 * Y ?v\<rparr>\<rparr>)"
      using friction_rest [of b] by simp
    then show ?thesis by (intro exI [of _ 0]) simp
  next
    case stop
    then have "friction b = Inr (b\<lparr>speed := \<lparr>X = 0 * X ?v, Y = 0 * Y ?v\<rparr>\<rparr>)"
      using friction_stop [of b] by simp
    then show ?thesis by (intro exI [of _ 0]) simp
  next
    case far
    note A = above_threshold [OF far(1)]
    have nv: "normalizedVector ?v = Inr \<lparr>X = 0, Y = 0\<rparr>"
      using far(2) by (simp add: normalizedVector_def Let_def)
    have fr: "friction b = Inr (b\<lparr>speed := \<lparr>X = 1 * X ?v, Y = 1 * Y ?v\<rparr>\<rparr>)"
      using far(1) A(2) nv
      by (simp add: friction_def getSpeed_def setSpeed_def magnitude_square Let_def)
    have "?s \<le> X ?v * X ?v + Y ?v * Y ?v"
      using floatSquare_le [of "X ?v"] floatSquare_le [of "Y ?v"] by simp
    then have "floatInfinite (X ?v * X ?v + Y ?v * Y ?v)"
      using far(2) unfolding floatInfinite_def by linarith
    then show ?thesis using fr by (intro exI [of _ 1]) simp
  next
    case slow
    note A = above_threshold [OF slow(1)]
    note L = computed_length [OF slow(1)]
    define l where "l = sqrt ?s"
    have dl: "?d < l" and lm: "l \<le> ?m"
      using L unfolding l_def by blast+
    have l0: "0 < l" using dl d0 by linarith
    have nv: "normalizedVector ?v = Inr \<lparr>X = X ?v / l, Y = Y ?v / l\<rparr>"
      using slow(2) l0 by (simp add: normalizedVector_def Let_def l_def)
    have e: "v - v * ?d / l = (1 - ?d / l) * v" for v
      by (simp add: algebra_simps)
    have fr: "friction b = Inr (b\<lparr>speed := \<lparr>X = (1 - ?d / l) * X ?v, Y = (1 - ?d / l) * Y ?v\<rparr>\<rparr>)"
      using slow(1) A(2) nv
      by (simp add: friction_def getSpeed_def setSpeed_def magnitude_square Let_def e)
    have k0: "0 \<le> 1 - ?d / l" "1 - ?d / l \<le> 1" using dl d0 l0 by simp_all
    have "?d \<le> ?d / l * ?m"
    proof -
      have "1 \<le> ?m / l" using lm l0 by simp
      then have "?d * 1 \<le> ?d * (?m / l)" using d0 by (intro mult_left_mono) simp_all
      then show ?thesis by simp
    qed
    then have "(1 - ?d / l) * ?m \<le> ?m - ?d" by (simp add: algebra_simps)
    then show ?thesis using fr k0 by (intro exI [of _ "1 - ?d / l"]) simp
  qed
qed

lemma ricochet_mesh: "gameMesh (ricochet b) = gameMesh b"
  by (simp add: ricochet_def Let_def setPosition_def setSpeed_def getPosition_def getSpeed_def)

lemma ricochet_speed_abs:
  "\<bar>X (speed (ricochet b))\<bar> = \<bar>X (speed b)\<bar>" "\<bar>Y (speed (ricochet b))\<bar> = \<bar>Y (speed b)\<bar>"
  by (simp_all add: ricochet_def Let_def setPosition_def setSpeed_def getPosition_def getSpeed_def)

lemma magnitude_abs:
  assumes "\<bar>X v\<bar> = \<bar>X w\<bar>" and "\<bar>Y v\<bar> = \<bar>Y w\<bar>"
  shows "magnitude v = magnitude w"
proof -
  have "X v * X v = X w * X w" using assms(1) by (metis abs_mult_self_eq)
  moreover have "Y v * Y v = Y w * Y w" using assms(2) by (metis abs_mult_self_eq)
  ultimately show ?thesis by (simp add: magnitude_def)
qed

lemma ricochet_magnitude: "magnitude (speed (ricochet b)) = magnitude (speed b)"
  by (rule magnitude_abs) (rule ricochet_speed_abs)+

lemma ricochet_inside:
  "\<not> outside (position b) \<Longrightarrow> ricochet b = b"
  by (simp add: outside_def ricochet_def Let_def getPosition_def)

lemma boundary_inside:
  "\<not> outside p \<Longrightarrow> boundary c p = (c, p)"
  by (simp add: boundary_def)

lemma boundary_facts:
  assumes "boundary c p = (c', p')"
  shows "gameMesh c' = gameMesh c"
    and "\<bar>X (speed c')\<bar> = \<bar>X (speed c)\<bar>" and "\<bar>Y (speed c')\<bar> = \<bar>Y (speed c)\<bar>"
    and "magnitude (speed c') = magnitude (speed c)"
    and "outside p \<Longrightarrow> position c' = p'"
    and "\<not> outside p \<Longrightarrow> c' = c \<and> p' = p"
  using assms
  by (auto simp: boundary_def Let_def ricochet_mesh ricochet_speed_abs ricochet_magnitude
      setPosition_def getPosition_def split: if_splits)

section \<open>One turn of the loop over the slots\<close>

lemma moveBall_pocketed:
  assumes "billBalls s ! i = Some a" and "pocketed dt i s"
  shows "moveBall dt i a s =
     Inr (True, getNextPosition (heap s ! a) dt,
          s\<lparr>scene := scene s @ [destroyMesh (gameMesh (heap s ! a))],
            billBalls := (billBalls s)[i := None]\<rparr>)"
proof -
  have "\<exists>q \<in> set pocketsPositions. distance (getNextPosition (heap s ! a) dt) q < pocketRadius"
    using assms by (simp add: pocketed_def)
  from pocketsLoop_some [OF assms(1) distinct_pockets subset_refl this]
  show ?thesis by (simp add: moveBall_def Let_def)
qed

lemma moveBall_free:
  assumes "billBalls s ! i = Some a" and "\<not> pocketed dt i s"
    and "friction (heap s ! a) = Inr c"
    and "boundary c (getNextPosition (heap s ! a) dt) = (c', p)"
  shows "moveBall dt i a s = Inr (False, p, s\<lparr>heap := (heap s)[a := c']\<rparr>)"
proof -
  have "\<forall>q \<in> set pocketsPositions. \<not> distance (getNextPosition (heap s ! a) dt) q < pocketRadius"
    using assms(1,2) by (simp add: pocketed_def)
  from pocketsLoop_none [OF this]
  show ?thesis using assms(3,4) by (simp add: moveBall_def Let_def)
qed

text \<open>A partner is skipped when its slot is empty or the test of line 376 fails.\<close>

lemma collisions_skip:
  assumes "\<forall>l \<in> set ls. \<forall>a2. billBalls s ! l = Some a2 \<longrightarrow>
             \<not> (l \<noteq> i \<and> distance p (getPosition (heap s ! a2)) \<le> 2 * radius)"
  shows "collisions i a ls (p, s) = Inr (p, s)"
  using assms by (induction ls) (auto split: option.splits)

lemma collisions_append:
  "collisions i a (xs @ ys) st =
     (case collisions i a xs st of Inl e \<Rightarrow> Inl e | Inr st' \<Rightarrow> collisions i a ys st')"
proof (induction xs arbitrary: st)
  case Nil
  show ?case by (cases st) simp
next
  case (Cons l xs)
  obtain p s where st: "st = (p, s)" by (cases st)
  show ?case unfolding st using Cons.IH
    by (auto split: option.splits sum.splits prod.splits)
qed

lemma nth_update_cases:
  "xs[a := c] ! b = (if b = a \<and> a < length xs then c else xs ! b)"
  by (cases "a < length xs") (simp_all add: nth_list_update list_update_beyond)

lemma collide_facts:
  assumes "collide b1 b2 = Inr (c1, c2)"
  shows "position c1 = position b1" "position c2 = position b2"
    "gameMesh c1 = gameMesh b1" "gameMesh c2 = gameMesh b2"
  using assms
  by (auto simp: collide_def Let_def setSpeed_def split: sum.splits)

text \<open>
  What the loop over the partners leaves alone: the slots, the scene, the charge,
  every position and mesh, and every object that is neither the current ball nor the
  ball of a partner in the list.
\<close>

lemma collisions_frame:
  assumes "collisions i a ls (p, s) = Inr (p', s')"
  shows "billBalls s' = billBalls s \<and> scene s' = scene s \<and>
         ballToHit s' = ballToHit s \<and> isChargingShot s' = isChargingShot s \<and>
         shotChargeProgress s' = shotChargeProgress s \<and>
         length (heap s') = length (heap s) \<and>
         (\<forall>b. position (heap s' ! b) = position (heap s ! b)) \<and>
         (\<forall>b. gameMesh (heap s' ! b) = gameMesh (heap s ! b)) \<and>
         (\<forall>b. b \<noteq> a \<and> (\<forall>l \<in> set ls. billBalls s ! l \<noteq> Some b) \<longrightarrow>
                heap s' ! b = heap s ! b) \<and>
         (p' = p \<or> p' = position (heap s ! a))"
  using assms
proof (induction ls arbitrary: p s)
  case Nil
  then show ?case by simp
next
  case (Cons l ls)
  show ?case
  proof (cases "billBalls s ! l")
    case None
    with Cons.prems have "collisions i a ls (p, s) = Inr (p', s')" by simp
    from Cons.IH [OF this] None show ?thesis by auto
  next
    case (Some a2)
    show ?thesis
    proof (cases "l \<noteq> i \<and> distance p (getPosition (heap s ! a2)) \<le> 2 * radius")
      case False
      with Cons.prems Some have "collisions i a ls (p, s) = Inr (p', s')" by auto
      from Cons.IH [OF this] Some show ?thesis by auto
    next
      case True
      with Cons.prems Some obtain c1 c2 where
        c: "collide (heap s ! a) (heap s ! a2) = Inr (c1, c2)"
        and r: "collisions i a ls (getPosition (heap s ! a),
                   s\<lparr>heap := (heap s)[a := c1, a2 := c2]\<rparr>) = Inr (p', s')"
        by (auto split: sum.splits)
      let ?t = "s\<lparr>heap := (heap s)[a := c1, a2 := c2]\<rparr>"
      note f = collide_facts [OF c]
      have pos: "position (heap ?t ! b) = position (heap s ! b)" for b
        using f by (simp add: nth_update_cases)
      have mesh: "gameMesh (heap ?t ! b) = gameMesh (heap s ! b)" for b
        using f by (simp add: nth_update_cases)
      have other: "heap ?t ! b = heap s ! b" if "b \<noteq> a" "b \<noteq> a2" for b
        using that by simp
      from Cons.IH [OF r] have ih:
        "billBalls s' = billBalls ?t" "scene s' = scene ?t"
        "ballToHit s' = ballToHit ?t" "isChargingShot s' = isChargingShot ?t"
        "shotChargeProgress s' = shotChargeProgress ?t"
        "length (heap s') = length (heap ?t)"
        "\<And>b. position (heap s' ! b) = position (heap ?t ! b)"
        "\<And>b. gameMesh (heap s' ! b) = gameMesh (heap ?t ! b)"
        "\<And>b. b \<noteq> a \<Longrightarrow> (\<forall>l \<in> set ls. billBalls ?t ! l \<noteq> Some b) \<Longrightarrow>
                heap s' ! b = heap ?t ! b"
        "p' = getPosition (heap s ! a) \<or> p' = position (heap ?t ! a)"
        by blast+
      have "heap s' ! b = heap s ! b"
        if "b \<noteq> a" "\<forall>l \<in> set (l # ls). billBalls s ! l \<noteq> Some b" for b
      proof -
        have "b \<noteq> a2" using that(2) Some by auto
        moreover have "\<forall>l \<in> set ls. billBalls ?t ! l \<noteq> Some b" using that(2) by simp
        ultimately show ?thesis using ih(9) [OF that(1)] other that(1) by simp
      qed
      moreover have "p' = p \<or> p' = position (heap s ! a)"
        using ih(10) pos by (auto simp: getPosition_def)
      ultimately show ?thesis using ih(1-8) pos mesh by simp
    qed
  qed
qed

lemma friction_total: "\<exists>c. friction b = Inr c \<and> position c = position b \<and> gameMesh c = gameMesh b"
  using friction_scales [of b] by auto

lemma updateBall_empty:
  "billBalls s ! i = None \<Longrightarrow> updateBall dt i s = Inr s"
  by (simp add: updateBall_def)

lemma updateBall_pocketed:
  assumes "billBalls s ! i = Some a" and "pocketed dt i s"
  shows "updateBall dt i s =
     Inr (s\<lparr>scene := scene s @ [destroyMesh (gameMesh (heap s ! a))],
            billBalls := (billBalls s)[i := None]\<rparr>)"
  using assms moveBall_pocketed [OF assms] by (simp add: updateBall_def)

lemma updateBall_moved:
  assumes "billBalls s ! i = Some a" and "\<not> pocketed dt i s"
    and "friction (heap s ! a) = Inr c"
    and "boundary c (getNextPosition (heap s ! a) dt) = (c', p)"
  shows "updateBall dt i s =
     (case collisions i a [Suc i ..< length (billBalls s)] (p, s\<lparr>heap := (heap s)[a := c']\<rparr>) of
        Inl e \<Rightarrow> Inl e
      | Inr (p', s3) \<Rightarrow>
          Inr (s3\<lparr>heap := (heap s3)[a := setPosition (heap s3 ! a) p'],
                  scene := scene s3 @
                    [placeMesh (gameMesh ((heap s3)[a := setPosition (heap s3 ! a) p'] ! a))
                       (X (position ((heap s3)[a := setPosition (heap s3 ! a) p'] ! a)))
                       (Y (position ((heap s3)[a := setPosition (heap s3 ! a) p'] ! a))) 0]\<rparr>))"
proof -
  note m = moveBall_free [OF assms]
  show ?thesis
  proof (cases "collisions i a [Suc i ..< length (billBalls s)] (p, s\<lparr>heap := (heap s)[a := c']\<rparr>)")
    case (Inl e)
    then show ?thesis using assms(1) m by (simp add: updateBall_def)
  next
    case (Inr r)
    obtain p' s3 where r: "r = (p', s3)" by (cases r)
    have "billBalls s3 = billBalls s"
      using collisions_frame [OF Inr [unfolded r]] by simp
    then show ?thesis using assms(1) m Inr r
      by (simp add: updateBall_def Let_def getMesh_def getPosition_def)
  qed
qed

text \<open>
  What one turn leaves alone. The turn of slot \<open>i\<close> writes no slot but its own, and
  that one only with \<^verbatim>\<open>NULL\<close>; it keeps the charge, the cue pointer, every mesh and
  the size of the heap; it moves no ball but its own; it changes no object but its own
  ball and the balls of the higher slots; and it makes at most one call into the
  presentation layer, for its own ball's mesh.
\<close>

lemma updateBall_frame:
  assumes "updateBall dt i s = Inr s'" and "i < length (billBalls s)"
  shows "length (billBalls s') = length (billBalls s)"
    and "\<And>k. k \<noteq> i \<Longrightarrow> billBalls s' ! k = billBalls s ! k"
    and "billBalls s' ! i = billBalls s ! i \<or> billBalls s' ! i = None"
    and "length (heap s') = length (heap s)"
    and "\<And>b. gameMesh (heap s' ! b) = gameMesh (heap s ! b)"
    and "ballToHit s' = ballToHit s \<and> isChargingShot s' = isChargingShot s \<and>
         shotChargeProgress s' = shotChargeProgress s"
    and "\<And>b. billBalls s ! i \<noteq> Some b \<Longrightarrow> position (heap s' ! b) = position (heap s ! b)"
    and "\<And>b. billBalls s ! i \<noteq> Some b \<Longrightarrow>
           (\<forall>l \<in> set [Suc i ..< length (billBalls s)]. billBalls s ! l \<noteq> Some b) \<Longrightarrow>
           heap s' ! b = heap s ! b"
    and "scene s' = scene s \<or>
         (\<exists>a. billBalls s ! i = Some a \<and>
            (scene s' = scene s @ [destroyMesh (gameMesh (heap s ! a))] \<and> billBalls s' ! i = None \<or>
             (\<exists>x y. scene s' = scene s @ [placeMesh (gameMesh (heap s ! a)) x y 0]) \<and>
               billBalls s' ! i = Some a))"
proof -
  have all: "length (billBalls s') = length (billBalls s) \<and>
    (\<forall>k. k \<noteq> i \<longrightarrow> billBalls s' ! k = billBalls s ! k) \<and>
    (billBalls s' ! i = billBalls s ! i \<or> billBalls s' ! i = None) \<and>
    length (heap s') = length (heap s) \<and>
    (\<forall>b. gameMesh (heap s' ! b) = gameMesh (heap s ! b)) \<and>
    (ballToHit s' = ballToHit s \<and> isChargingShot s' = isChargingShot s \<and>
         shotChargeProgress s' = shotChargeProgress s) \<and>
    (\<forall>b. billBalls s ! i \<noteq> Some b \<longrightarrow> position (heap s' ! b) = position (heap s ! b)) \<and>
    (\<forall>b. billBalls s ! i \<noteq> Some b \<longrightarrow>
           (\<forall>l \<in> set [Suc i ..< length (billBalls s)]. billBalls s ! l \<noteq> Some b) \<longrightarrow>
           heap s' ! b = heap s ! b) \<and>
    (scene s' = scene s \<or>
         (\<exists>a. billBalls s ! i = Some a \<and>
            (scene s' = scene s @ [destroyMesh (gameMesh (heap s ! a))] \<and> billBalls s' ! i = None \<or>
             (\<exists>x y. scene s' = scene s @ [placeMesh (gameMesh (heap s ! a)) x y 0]) \<and>
               billBalls s' ! i = Some a)))"
  proof (cases "billBalls s ! i")
    case None
    then have "s' = s" using assms by (simp add: updateBall_empty)
    then show ?thesis by simp
  next
    case (Some a)
    show ?thesis
    proof (cases "pocketed dt i s")
      case True
      from updateBall_pocketed [OF Some True] assms
      have s': "s' = s\<lparr>scene := scene s @ [destroyMesh (gameMesh (heap s ! a))],
            billBalls := (billBalls s)[i := None]\<rparr>" by simp
      show ?thesis unfolding s' using Some assms(2) by (simp add: nth_update_cases)
    next
      case False
      obtain c where c: "friction (heap s ! a) = Inr c" "position c = position (heap s ! a)"
        "gameMesh c = gameMesh (heap s ! a)"
        using friction_total by blast
      obtain c' p where b: "boundary c (getNextPosition (heap s ! a) dt) = (c', p)"
        by (cases "boundary c (getNextPosition (heap s ! a) dt)")
      let ?t = "s\<lparr>heap := (heap s)[a := c']\<rparr>"
      note u = updateBall_moved [OF Some False c(1) b]
      obtain p' s3 where
        col: "collisions i a [Suc i ..< length (billBalls s)] (p, ?t) = Inr (p', s3)"
      proof (cases "collisions i a [Suc i ..< length (billBalls s)] (p, ?t)")
        case (Inl e)
        then show ?thesis using u assms(1) by simp
      next
        case (Inr r)
        then show ?thesis using that by (cases r) simp
      qed
      have s': "s' = s3\<lparr>heap := (heap s3)[a := setPosition (heap s3 ! a) p'],
                  scene := scene s3 @
                    [placeMesh (gameMesh ((heap s3)[a := setPosition (heap s3 ! a) p'] ! a))
                       (X (position ((heap s3)[a := setPosition (heap s3 ! a) p'] ! a)))
                       (Y (position ((heap s3)[a := setPosition (heap s3 ! a) p'] ! a))) 0]\<rparr>"
        using u assms(1) unfolding col by simp
      from collisions_frame [OF col] have f:
        "billBalls s3 = billBalls s" "scene s3 = scene s"
        "ballToHit s3 = ballToHit s" "isChargingShot s3 = isChargingShot s"
        "shotChargeProgress s3 = shotChargeProgress s"
        "length (heap s3) = length (heap s)"
        "\<And>b. position (heap s3 ! b) = position (heap ?t ! b)"
        "\<And>b. gameMesh (heap s3 ! b) = gameMesh (heap ?t ! b)"
        "\<And>b. b \<noteq> a \<Longrightarrow> (\<forall>l \<in> set [Suc i ..< length (billBalls s)]. billBalls s ! l \<noteq> Some b)
            \<Longrightarrow> heap s3 ! b = heap ?t ! b"
        by simp_all
      have mc': "gameMesh c' = gameMesh (heap s ! a)"
        using boundary_facts(1) [OF b] c(3) by simp
      have mesh: "gameMesh (heap s' ! b) = gameMesh (heap s ! b)" for b
        unfolding s' using f(8) [of b] f(8) [of a] mc'
        by (simp add: nth_update_cases setPosition_def)
      have pos: "position (heap s' ! b) = position (heap s ! b)" if "b \<noteq> a" for b
        unfolding s' using f(7) [of b] that by simp
      have obj: "heap s' ! b = heap s ! b"
        if "b \<noteq> a" "\<forall>l \<in> set [Suc i ..< length (billBalls s)]. billBalls s ! l \<noteq> Some b" for b
        unfolding s' using f(9) [OF that] that(1) by simp
      have sc: "\<exists>x y. scene s' = scene s @ [placeMesh (gameMesh (heap s ! a)) x y 0]"
        using mesh [of a] unfolding s' by (simp add: f(2))
      have bb: "billBalls s' = billBalls s" unfolding s' by (simp add: f(1))
      have rest: "length (heap s') = length (heap s)" "ballToHit s' = ballToHit s"
        "isChargingShot s' = isChargingShot s" "shotChargeProgress s' = shotChargeProgress s"
        unfolding s' by (simp_all add: f)
      have "scene s' = scene s \<or>
         (\<exists>a. billBalls s ! i = Some a \<and>
            (scene s' = scene s @ [destroyMesh (gameMesh (heap s ! a))] \<and> billBalls s' ! i = None \<or>
             (\<exists>x y. scene s' = scene s @ [placeMesh (gameMesh (heap s ! a)) x y 0]) \<and>
               billBalls s' ! i = Some a))"
        using sc Some bb by simp
      moreover have "\<forall>b. billBalls s ! i \<noteq> Some b \<longrightarrow> position (heap s' ! b) = position (heap s ! b)"
        using pos Some by simp
      moreover have "\<forall>b. billBalls s ! i \<noteq> Some b \<longrightarrow>
           (\<forall>l \<in> set [Suc i ..< length (billBalls s)]. billBalls s ! l \<noteq> Some b) \<longrightarrow>
           heap s' ! b = heap s ! b"
        using obj Some by simp
      ultimately show ?thesis using mesh bb rest by simp
    qed
  qed
  show "length (billBalls s') = length (billBalls s)"
    and "\<And>k. k \<noteq> i \<Longrightarrow> billBalls s' ! k = billBalls s ! k"
    and "billBalls s' ! i = billBalls s ! i \<or> billBalls s' ! i = None"
    and "length (heap s') = length (heap s)"
    and "\<And>b. gameMesh (heap s' ! b) = gameMesh (heap s ! b)"
    and "ballToHit s' = ballToHit s \<and> isChargingShot s' = isChargingShot s \<and>
         shotChargeProgress s' = shotChargeProgress s"
    and "\<And>b. billBalls s ! i \<noteq> Some b \<Longrightarrow> position (heap s' ! b) = position (heap s ! b)"
    and "\<And>b. billBalls s ! i \<noteq> Some b \<Longrightarrow>
           (\<forall>l \<in> set [Suc i ..< length (billBalls s)]. billBalls s ! l \<noteq> Some b) \<Longrightarrow>
           heap s' ! b = heap s ! b"
    and "scene s' = scene s \<or>
         (\<exists>a. billBalls s ! i = Some a \<and>
            (scene s' = scene s @ [destroyMesh (gameMesh (heap s ! a))] \<and> billBalls s' ! i = None \<or>
             (\<exists>x y. scene s' = scene s @ [placeMesh (gameMesh (heap s ! a)) x y 0]) \<and>
               billBalls s' ! i = Some a))"
    using all by simp_all
qed

section \<open>The loop over the slots\<close>

lemma wellFormed_slots: "wellFormed s \<Longrightarrow> length (billBalls s) = 7"
  by (simp add: wellFormed_def)

lemma wellFormed_addr:
  "wellFormed s \<Longrightarrow> i < 7 \<Longrightarrow> billBalls s ! i = Some a \<Longrightarrow> a < length (heap s)"
  unfolding wellFormed_def by blast

lemma wellFormed_distinct:
  "wellFormed s \<Longrightarrow> i < 7 \<Longrightarrow> j < 7 \<Longrightarrow> billBalls s ! i = Some a \<Longrightarrow>
   billBalls s ! j = Some a \<Longrightarrow> j = i"
  unfolding wellFormed_def by blast

text \<open>Clearing slots keeps the table well formed.\<close>

lemma wellFormed_cleared:
  assumes "wellFormed s" and "length (billBalls s') = 7"
    and "length (heap s') = length (heap s)"
    and "\<And>k. k < 7 \<Longrightarrow> billBalls s' ! k = billBalls s ! k \<or> billBalls s' ! k = None"
  shows "wellFormed s'"
  unfolding wellFormed_def
proof (intro conjI allI impI)
  show "length (billBalls s') = 7" by fact
next
  fix i a assume i: "i < 7" and a: "billBalls s' ! i = Some a"
  then have sa: "billBalls s ! i = Some a" using assms(4) [OF i] by auto
  show "a < length (heap s')" using wellFormed_addr [OF assms(1) i sa] assms(3) by simp
next
  fix i a j assume i: "i < 7" and a: "billBalls s' ! i = Some a"
    and j: "j < 7" and b: "billBalls s' ! j = Some a"
  have "billBalls s ! i = Some a" using assms(4) [OF i] a by auto
  moreover have "billBalls s ! j = Some a" using assms(4) [OF j] b by auto
  ultimately show "j = i" by (rule wellFormed_distinct [OF assms(1) i j])
qed

lemma wellFormed_updateBall:
  assumes "wellFormed s" and "i < 7" and "updateBall dt i s = Inr s'"
  shows "wellFormed s'"
proof -
  have il: "i < length (billBalls s)" using assms(1,2) by (simp add: wellFormed_slots)
  note f = updateBall_frame [OF assms(3) il]
  show ?thesis
  proof (rule wellFormed_cleared [OF assms(1)])
    show "length (billBalls s') = 7" using f(1) assms(1) by (simp add: wellFormed_slots)
    show "length (heap s') = length (heap s)" by (rule f(4))
    show "billBalls s' ! k = billBalls s ! k \<or> billBalls s' ! k = None" for k
      using f(2) [of k] f(3) by (cases "k = i") auto
  qed
qed

lemma ballsLoop_append:
  "ballsLoop dt (xs @ ys) s =
     (case ballsLoop dt xs s of Inl e \<Rightarrow> Inl e | Inr t \<Rightarrow> ballsLoop dt ys t)"
  by (induction xs arbitrary: s) (auto split: sum.splits)

text \<open>
  What a run of turns leaves alone: as for one turn, summed over the slots \<open>js\<close>
  whose turns are run.
\<close>

lemma ballsLoop_frame:
  assumes "ballsLoop dt js s = Inr s'" and "wellFormed s" and "\<forall>j \<in> set js. j < 7"
  shows "wellFormed s' \<and>
    (\<forall>k. k \<notin> set js \<longrightarrow> billBalls s' ! k = billBalls s ! k) \<and>
    (\<forall>k. billBalls s' ! k = billBalls s ! k \<or> billBalls s' ! k = None) \<and>
    length (heap s') = length (heap s) \<and>
    (\<forall>b. gameMesh (heap s' ! b) = gameMesh (heap s ! b)) \<and>
    ballToHit s' = ballToHit s \<and> isChargingShot s' = isChargingShot s \<and>
    shotChargeProgress s' = shotChargeProgress s \<and>
    (\<forall>b. (\<forall>j \<in> set js. billBalls s ! j \<noteq> Some b) \<longrightarrow>
          position (heap s' ! b) = position (heap s ! b)) \<and>
    (\<forall>b. (\<forall>j \<in> set js. \<forall>l \<in> set [j ..< 7]. billBalls s ! l \<noteq> Some b) \<longrightarrow>
          heap s' ! b = heap s ! b)"
  using assms
proof (induction js arbitrary: s)
  case Nil
  then show ?case by simp
next
  case (Cons j js)
  from Cons.prems(1) obtain t where t: "updateBall dt j s = Inr t"
    and r: "ballsLoop dt js t = Inr s'"
    by (auto split: sum.splits)
  have j7: "j < 7" using Cons.prems(3) by simp
  have len: "length (billBalls s) = 7" using Cons.prems(2) by (rule wellFormed_slots)
  have jl: "j < length (billBalls s)" using j7 len by simp
  note f = updateBall_frame [OF t jl]
  have wt: "wellFormed t" by (rule wellFormed_updateBall [OF Cons.prems(2) j7 t])
  have sub: "billBalls t ! k = billBalls s ! k \<or> billBalls t ! k = None" for k
    using f(2) [of k] f(3) by (cases "k = j") auto
  have js7: "\<forall>j \<in> set js. j < 7" using Cons.prems(3) by simp
  note IH = Cons.IH [OF r wt js7]
  note ih1 = IH [THEN conjunct1]
  note ih2 = IH [THEN conjunct2, THEN conjunct1, rule_format]
  note ih3 = IH [THEN conjunct2, THEN conjunct2, THEN conjunct1, rule_format]
  note ih4 = IH [THEN conjunct2, THEN conjunct2, THEN conjunct2, THEN conjunct1]
  note ih5 = IH [THEN conjunct2, THEN conjunct2, THEN conjunct2, THEN conjunct2,
      THEN conjunct1, rule_format]
  note ih6 = IH [THEN conjunct2, THEN conjunct2, THEN conjunct2, THEN conjunct2,
      THEN conjunct2, THEN conjunct1]
  note ih7 = IH [THEN conjunct2, THEN conjunct2, THEN conjunct2, THEN conjunct2,
      THEN conjunct2, THEN conjunct2, THEN conjunct1]
  note ih8 = IH [THEN conjunct2, THEN conjunct2, THEN conjunct2, THEN conjunct2,
      THEN conjunct2, THEN conjunct2, THEN conjunct2, THEN conjunct1]
  note ih9 = IH [THEN conjunct2, THEN conjunct2, THEN conjunct2, THEN conjunct2,
      THEN conjunct2, THEN conjunct2, THEN conjunct2, THEN conjunct2, THEN conjunct1,
      THEN spec, THEN mp]
  note ih10 = IH [THEN conjunct2, THEN conjunct2, THEN conjunct2, THEN conjunct2,
      THEN conjunct2, THEN conjunct2, THEN conjunct2, THEN conjunct2, THEN conjunct2,
      THEN spec, THEN mp]
  have a: "\<forall>k. k \<notin> set (j # js) \<longrightarrow> billBalls s' ! k = billBalls s ! k"
  proof (intro allI impI)
    fix k assume k: "k \<notin> set (j # js)"
    then have "billBalls s' ! k = billBalls t ! k" by (intro ih2) simp
    also have "\<dots> = billBalls s ! k" using k by (intro f(2)) simp
    finally show "billBalls s' ! k = billBalls s ! k" .
  qed
  have b: "\<forall>k. billBalls s' ! k = billBalls s ! k \<or> billBalls s' ! k = None"
  proof
    fix k
    show "billBalls s' ! k = billBalls s ! k \<or> billBalls s' ! k = None"
      using ih3 [of k] sub [of k] by auto
  qed
  have c: "\<forall>b. (\<forall>j \<in> set (j # js). billBalls s ! j \<noteq> Some b) \<longrightarrow>
          position (heap s' ! b) = position (heap s ! b)"
  proof (intro allI impI)
    fix b assume h: "\<forall>j \<in> set (j # js). billBalls s ! j \<noteq> Some b"
    have "\<forall>j \<in> set js. billBalls t ! j \<noteq> Some b"
    proof
      fix j' assume "j' \<in> set js"
      then have "billBalls s ! j' \<noteq> Some b" using h by simp
      then show "billBalls t ! j' \<noteq> Some b" using sub [of j'] by auto
    qed
    then have "position (heap s' ! b) = position (heap t ! b)" by (rule ih9)
    also have "\<dots> = position (heap s ! b)" using f(7) [of b] h by simp
    finally show "position (heap s' ! b) = position (heap s ! b)" .
  qed
  have d: "\<forall>b. (\<forall>j \<in> set (j # js). \<forall>l \<in> set [j ..< 7]. billBalls s ! l \<noteq> Some b) \<longrightarrow>
          heap s' ! b = heap s ! b"
  proof (intro allI impI)
    fix b assume h: "\<forall>j \<in> set (j # js). \<forall>l \<in> set [j ..< 7]. billBalls s ! l \<noteq> Some b"
    have "\<forall>j \<in> set js. \<forall>l \<in> set [j ..< 7]. billBalls t ! l \<noteq> Some b"
    proof (intro ballI)
      fix j' l assume "j' \<in> set js" "l \<in> set [j' ..< 7]"
      then have "billBalls s ! l \<noteq> Some b" using h by simp
      then show "billBalls t ! l \<noteq> Some b" using sub [of l] by auto
    qed
    then have "heap s' ! b = heap t ! b" by (rule ih10)
    also have "heap t ! b = heap s ! b"
    proof (rule f(8))
      show "billBalls s ! j \<noteq> Some b" using h j7 by simp
      show "\<forall>l \<in> set [Suc j ..< length (billBalls s)]. billBalls s ! l \<noteq> Some b"
        using h len by simp
    qed
    finally show "heap s' ! b = heap s ! b" .
  qed
  have e: "length (heap s') = length (heap s)" using ih4 f(4) by simp
  have g: "\<forall>b. gameMesh (heap s' ! b) = gameMesh (heap s ! b)" using ih5 f(5) by simp
  have h: "ballToHit s' = ballToHit s" "isChargingShot s' = isChargingShot s"
    "shotChargeProgress s' = shotChargeProgress s"
    using ih6 ih7 ih8 f(6) by simp_all
  show ?case
    by (intro conjI) (fact ih1 a b c d e g h)+
qed

section \<open>Turns without a collision\<close>

lemma collisions_one_skip:
  assumes "\<forall>a2. billBalls s ! l = Some a2 \<longrightarrow>
             \<not> (l \<noteq> i \<and> distance p (getPosition (heap s ! a2)) \<le> 2 * radius)"
  shows "collisions i a [l] (p, s) = Inr (p, s)"
  using assms by (intro collisions_skip) simp

text \<open>
  At its own turn a ball that is not pocketed and hits no partner leaves the loop over
  the partners as it entered it.
\<close>

lemma own_turn_calm:
  assumes slot: "billBalls s ! i = Some a" and np: "\<not> pocketed dt i s"
    and fr: "friction (heap s ! a) = Inr c"
    and bd: "boundary c (getNextPosition (heap s ! a) dt) = (c', p)"
    and len: "length (billBalls s) = 7"
    and nohit: "\<forall>l \<in> set [Suc i ..< 7]. \<not> hits dt i l s"
  shows "n \<le> 7 \<Longrightarrow>
     collisions i a [Suc i ..< n] (p, s\<lparr>heap := (heap s)[a := c']\<rparr>)
       = Inr (p, s\<lparr>heap := (heap s)[a := c']\<rparr>)"
proof (induction n)
  case 0
  show ?case by simp
next
  case (Suc n)
  let ?t = "s\<lparr>heap := (heap s)[a := c']\<rparr>"
  show ?case
  proof (cases "Suc i \<le> n")
    case False
    then show ?thesis by simp
  next
    case True
    have ih: "collisions i a [Suc i ..< n] (p, ?t) = Inr (p, ?t)"
      using Suc by simp
    have n7: "n < 7" using Suc.prems by simp
    have "\<not> hits dt i n s" using nohit True n7 by simp
    then have test: "\<forall>a2. billBalls ?t ! n = Some a2 \<longrightarrow>
             \<not> (n \<noteq> i \<and> distance p (getPosition (heap ?t ! a2)) \<le> 2 * radius)"
      using slot True n7 len ih
      by (simp add: hits_def moveBall_free [OF slot np fr bd] split: option.splits)
    have "[Suc i ..< Suc n] = [Suc i ..< n] @ [n]" using True by simp
    then show ?thesis
      using ih collisions_one_skip [OF test, of a]
      by (simp add: collisions_append)
  qed
qed

lemma own_turn_result:
  assumes slot: "billBalls s ! i = Some a" and np: "\<not> pocketed dt i s"
    and fr: "friction (heap s ! a) = Inr c"
    and bd: "boundary c (getNextPosition (heap s ! a) dt) = (c', p)"
    and len: "length (billBalls s) = 7"
    and nohit: "\<forall>l \<in> set [Suc i ..< 7]. \<not> hits dt i l s"
    and al: "a < length (heap s)"
  shows "updateBall dt i s =
     Inr (s\<lparr>heap := (heap s)[a := setPosition c' p],
            scene := scene s @ [placeMesh (gameMesh (heap s ! a)) (X p) (Y p) 0]\<rparr>)"
proof -
  have col: "collisions i a [Suc i ..< length (billBalls s)] (p, s\<lparr>heap := (heap s)[a := c']\<rparr>)
       = Inr (p, s\<lparr>heap := (heap s)[a := c']\<rparr>)"
    using own_turn_calm [OF slot np fr bd len nohit, of 7] len by simp
  obtain c0 where c0: "friction (heap s ! a) = Inr c0" "gameMesh c0 = gameMesh (heap s ! a)"
    using friction_total by blast
  have m: "gameMesh c' = gameMesh (heap s ! a)"
    using boundary_facts(1) [OF bd] c0 fr by simp
  show ?thesis
    using al m
    by (simp add: updateBall_moved [OF slot np fr bd] col setPosition_def)
qed

text \<open>
  A ball of a higher slot that the current ball does not hit is the same object after
  the current ball's turn.
\<close>

lemma partner_untouched:
  assumes wf: "wellFormed s" and ji: "j < i" and i7: "i < 7"
    and slot: "billBalls s ! i = Some a"
    and nohit: "\<not> hits dt j i s"
    and run: "updateBall dt j s = Inr s'"
  shows "heap s' ! a = heap s ! a"
proof (cases "billBalls s ! j")
  case None
  then show ?thesis using run by (simp add: updateBall_empty)
next
  case (Some aj)
  have j7: "j < 7" using ji i7 by simp
  have len: "length (billBalls s) = 7" using wf by (rule wellFormed_slots)
  have ne: "a \<noteq> aj"
    using wellFormed_distinct [OF wf i7 j7 slot] Some ji by auto
  have other: "billBalls s ! l \<noteq> Some a" if "l \<noteq> i" "l < 7" for l
    using wellFormed_distinct [OF wf i7 that(2) slot] that(1) by auto
  show ?thesis
  proof (cases "pocketed dt j s")
    case True
    then show ?thesis using run updateBall_pocketed [OF Some True] by auto
  next
    case False
    obtain c where fr: "friction (heap s ! aj) = Inr c" using friction_total by blast
    obtain c' p where bd: "boundary c (getNextPosition (heap s ! aj) dt) = (c', p)"
      by (cases "boundary c (getNextPosition (heap s ! aj) dt)")
    let ?t = "s\<lparr>heap := (heap s)[aj := c']\<rparr>"
    note u = updateBall_moved [OF Some False fr bd]
    have split: "[Suc j ..< 7] = [Suc j ..< i] @ [i] @ [Suc i ..< 7]"
    proof -
      have "[Suc j ..< 7] = [Suc j ..< i] @ [i ..< 7]"
        using upt_add_eq_append [of "Suc j" i "7 - i"] ji i7 by simp
      also have "[i ..< 7] = i # [Suc i ..< 7]" using i7 by (simp add: upt_conv_Cons)
      finally show ?thesis by simp
    qed
    obtain r where r: "collisions j aj [Suc j ..< 7] (p, ?t) = Inr r"
      using u run len by (cases "collisions j aj [Suc j ..< 7] (p, ?t)") simp_all
    obtain p' s3 where r3: "r = (p', s3)" by (cases r)
    from r obtain p1 s1 where
      c1: "collisions j aj [Suc j ..< i] (p, ?t) = Inr (p1, s1)"
      and c2: "collisions j aj ([i] @ [Suc i ..< 7]) (p1, s1) = Inr (p', s3)"
      unfolding split r3 collisions_append [of j aj "[Suc j ..< i]"]
      by (cases "collisions j aj [Suc j ..< i] (p, ?t)") auto
    note f1 = collisions_frame [OF c1]
    have b1: "billBalls s1 = billBalls s" using f1 by simp
    have h1: "heap s1 ! a = heap ?t ! a"
    proof -
      have "\<forall>l \<in> set [Suc j ..< i]. billBalls ?t ! l \<noteq> Some a"
        using other i7 by simp
      with ne f1 show ?thesis by blast
    qed
    have "\<not> (i \<noteq> j \<and> distance p1 (getPosition (heap s1 ! a)) \<le> 2 * radius)"
      using nohit Some ji i7 len c1 b1 slot
      by (simp add: hits_def moveBall_free [OF Some False fr bd])
    then have sk: "collisions j aj [i] (p1, s1) = Inr (p1, s1)"
      using b1 slot by (intro collisions_one_skip) simp
    have c3: "collisions j aj [Suc i ..< 7] (p1, s1) = Inr (p', s3)"
      using c2 unfolding collisions_append sk by simp
    note f3 = collisions_frame [OF c3]
    have h3: "heap s3 ! a = heap s1 ! a"
    proof -
      have "\<forall>l \<in> set [Suc i ..< 7]. billBalls s1 ! l \<noteq> Some a"
        using other b1 by simp
      with ne f3 show ?thesis by blast
    qed
    have "heap s' ! a = heap s3 ! a"
      using u run len r r3 ne by auto
    then show ?thesis using h3 h1 ne by simp
  qed
qed

section \<open>One frame\<close>

lemma charge_fields:
  "heap (charge dt s) = heap s" "billBalls (charge dt s) = billBalls s"
  "ballToHit (charge dt s) = ballToHit s" "isChargingShot (charge dt s) = isChargingShot s"
  "scene (charge dt s) =
     scene s @ [updateProgressBar (shotChargeProgress (charge dt s))]"
  "shotChargeProgress (charge dt s) =
     (if isChargingShot s then min (shotChargeProgress s + dt / chargeTime) 1
      else shotChargeProgress s)"
  by (simp_all add: charge_def Let_def)

lemma wellFormed_charge: "wellFormed (charge dt s) = wellFormed s"
  by (simp add: wellFormed_def charge_fields)

lemma update_split:
  assumes "i < 7" and "length (billBalls s) = 7"
  shows "update dt s =
     (case ballsLoop dt [0 ..< i] (charge dt s) of
        Inl e \<Rightarrow> Inl e
      | Inr t \<Rightarrow>
          (case updateBall dt i t of
             Inl e \<Rightarrow> Inl e
           | Inr t' \<Rightarrow> ballsLoop dt [Suc i ..< 7] t'))"
proof -
  have "[0 ..< 7] = [0 ..< i] @ [i ..< 7]"
    using upt_add_eq_append [of 0 i "7 - i"] assms(1) by simp
  also have "[i ..< 7] = i # [Suc i ..< 7]" using assms(1) by (simp add: upt_conv_Cons)
  finally have "[0 ..< 7] = [0 ..< i] @ i # [Suc i ..< 7]" .
  then show ?thesis
    by (simp add: update_def charge_fields assms(2) ballsLoop_append split: sum.splits)
qed

text \<open>
  The turns of the lower slots, when none of them hits the ball of slot \<open>i\<close>, leave
  that ball's object and slot as they were.
\<close>

lemma untouched_prefix:
  assumes "wellFormed s" and "i < 7" and "billBalls s ! i = Some a"
    and "\<forall>j \<in> set js. j < i" and "untouchedBy dt i js s"
    and "ballsLoop dt js s = Inr t"
  shows "heap t ! a = heap s ! a \<and> billBalls t ! i = Some a \<and> wellFormed t"
  using assms
proof (induction js arbitrary: s)
  case Nil
  then show ?case by simp
next
  case (Cons j js)
  from Cons.prems(6) obtain u where u: "updateBall dt j s = Inr u"
    and r: "ballsLoop dt js u = Inr t"
    by (auto split: sum.splits)
  have ji: "j < i" using Cons.prems(4) by simp
  then have j7: "j < 7" using Cons.prems(2) by simp
  have jl: "j < length (billBalls s)" using j7 Cons.prems(1) by (simp add: wellFormed_slots)
  have nh: "\<not> hits dt j i s" and ub: "untouchedBy dt i js u"
    using Cons.prems(5) u by simp_all
  have hu: "heap u ! a = heap s ! a"
    by (rule partner_untouched [OF Cons.prems(1) ji Cons.prems(2,3) nh u])
  have bu: "billBalls u ! i = Some a"
    using updateBall_frame(2) [OF u jl, of i] ji Cons.prems(3) by simp
  have wu: "wellFormed u" by (rule wellFormed_updateBall [OF Cons.prems(1) j7 u])
  have "\<forall>j \<in> set js. j < i" using Cons.prems(4) by simp
  from Cons.IH [OF wu Cons.prems(2) bu this ub r] hu show ?case by simp
qed

text \<open>The turns of the higher slots leave the ball of slot \<open>i\<close> as it was.\<close>

lemma later_turns:
  assumes "wellFormed t" and "i < 7" and "billBalls t ! i = Some a"
    and "\<forall>j \<in> set js. i < j \<and> j < 7" and "ballsLoop dt js t = Inr s'"
  shows "heap s' ! a = heap t ! a \<and> billBalls s' ! i = Some a \<and> wellFormed s'"
proof -
  have js7: "\<forall>j \<in> set js. j < 7" using assms(4) by simp
  note F = ballsLoop_frame [OF assms(5,1) js7]
  have "\<forall>j \<in> set js. \<forall>l \<in> set [j ..< 7]. billBalls t ! l \<noteq> Some a"
  proof (intro ballI)
    fix j l assume "j \<in> set js" "l \<in> set [j ..< 7]"
    then have l: "l \<noteq> i" "l < 7" using assms(4) by auto
    show "billBalls t ! l \<noteq> Some a"
      using wellFormed_distinct [OF assms(1,2) l(2) assms(3)] l(1) by auto
  qed
  then have "heap s' ! a = heap t ! a"
    using F [THEN conjunct2, THEN conjunct2, THEN conjunct2, THEN conjunct2,
      THEN conjunct2, THEN conjunct2, THEN conjunct2, THEN conjunct2, THEN conjunct2,
      THEN spec, THEN mp] by simp
  moreover have "i \<notin> set js" using assms(4) by auto
  then have "billBalls s' ! i = billBalls t ! i"
    using F [THEN conjunct2, THEN conjunct1, THEN spec, THEN mp] by simp
  ultimately show ?thesis using assms(3) F [THEN conjunct1] by simp
qed

text \<open>
  The frame of an undisturbed ball: its object after the frame is its object before,
  with friction and the boundary step applied and the resulting position committed.
\<close>

lemma undisturbed_frame:
  assumes wf: "wellFormed s" and i7: "i < 7" and slot: "billBalls s ! i = Some a"
    and und: "undisturbed dt i s" and run: "update dt s = Inr s'"
    and fr: "friction (heap s ! a) = Inr c"
    and bd: "boundary c (getNextPosition (heap s ! a) dt) = (c', p)"
  shows "heap s' ! a = setPosition c' p \<and> billBalls s' ! i = Some a \<and> wellFormed s'"
proof -
  have len: "length (billBalls s) = 7" using wf by (rule wellFormed_slots)
  note sp = update_split [OF i7 len, of dt]
  from run sp obtain t where t: "ballsLoop dt [0 ..< i] (charge dt s) = Inr t"
    by (cases "ballsLoop dt [0 ..< i] (charge dt s)") simp_all
  from run sp t obtain t' where t': "updateBall dt i t = Inr t'"
    by (cases "updateBall dt i t") simp_all
  from run sp t t' have rest: "ballsLoop dt [Suc i ..< 7] t' = Inr s'" by simp
  have wc: "wellFormed (charge dt s)" using wf by (simp add: wellFormed_charge)
  have ut: "untouchedBy dt i [0 ..< i] (charge dt s)"
    and own: "\<not> pocketed dt i t" "\<forall>l \<in> set [Suc i ..< 7]. \<not> hits dt i l t"
    using und t by (simp_all add: undisturbed_def)
  have pre: "heap t ! a = heap s ! a" "billBalls t ! i = Some a" "wellFormed t"
    using untouched_prefix [OF wc i7 _ _ ut t, of a] slot
    by (simp_all add: charge_fields)
  have al: "a < length (heap t)" by (rule wellFormed_addr [OF pre(3) i7 pre(2)])
  have lt: "length (billBalls t) = 7" using pre(3) by (rule wellFormed_slots)
  have res: "updateBall dt i t =
     Inr (t\<lparr>heap := (heap t)[a := setPosition c' p],
            scene := scene t @ [placeMesh (gameMesh (heap t ! a)) (X p) (Y p) 0]\<rparr>)"
    using own_turn_result [OF pre(2) own(1) _ _ lt own(2) al, of c c' p] fr bd pre(1)
    by simp
  then have t'eq: "t' = t\<lparr>heap := (heap t)[a := setPosition c' p],
            scene := scene t @ [placeMesh (gameMesh (heap t ! a)) (X p) (Y p) 0]\<rparr>"
    using t' by simp
  have wt': "wellFormed t'" by (rule wellFormed_updateBall [OF pre(3) i7 t'])
  have bt': "billBalls t' ! i = Some a" using pre(2) by (simp add: t'eq)
  have ht': "heap t' ! a = setPosition c' p" using al by (simp add: t'eq)
  have "\<forall>j \<in> set [Suc i ..< 7]. i < j \<and> j < 7" by simp
  from later_turns [OF wt' i7 bt' this rest] ht' show ?thesis by simp
qed

section \<open>Friction over the frames\<close>

lemma setPosition_speed: "speed (setPosition b p) = speed b"
  by (simp add: setPosition_def)

lemma moderate_finite:
  assumes "magnitude v \<le> 1000"
  shows "\<not> floatInfinite (X v * X v + Y v * Y v)"
proof -
  have "magnitude v * magnitude v \<le> 1000 * 1000"
    using assms magnitude_nonneg [of v] by (intro mult_mono) simp_all
  then have "X v * X v + Y v * Y v \<le> 1000000" by (simp add: magnitude_square)
  moreover have "(1000000 :: real) < 2 ^ 128 - 2 ^ 103" by simp
  ultimately show ?thesis unfolding floatInfinite_def by linarith
qed

text \<open>One frame of an undisturbed ball, in terms of the factor friction applies.\<close>

lemma undisturbed_speed:
  assumes wf: "wellFormed s" and i7: "i < 7" and slot: "billBalls s ! i = Some a"
    and und: "undisturbed dt i s" and run: "update dt s = Inr s'"
  shows "\<exists>k. 0 \<le> k \<and> k \<le> 1 \<and>
       friction (heap s ! a) =
         Inr ((heap s ! a)\<lparr>speed := \<lparr>X = k * X (speed (heap s ! a)),
                                      Y = k * Y (speed (heap s ! a))\<rparr>\<rparr>) \<and>
       (\<not> floatInfinite (X (speed (heap s ! a)) * X (speed (heap s ! a)) +
                          Y (speed (heap s ! a)) * Y (speed (heap s ! a))) \<longrightarrow>
          k = 0 \<or> k * magnitude (speed (heap s ! a))
                    \<le> magnitude (speed (heap s ! a)) - frictionDeceleration) \<and>
       \<bar>X (speed (heap s' ! a))\<bar> = k * \<bar>X (speed (heap s ! a))\<bar> \<and>
       \<bar>Y (speed (heap s' ! a))\<bar> = k * \<bar>Y (speed (heap s ! a))\<bar> \<and>
       magnitude (speed (heap s' ! a)) = k * magnitude (speed (heap s ! a)) \<and>
       (\<not> outside (getNextPosition (heap s ! a) dt) \<longrightarrow>
          X (speed (heap s' ! a)) = k * X (speed (heap s ! a)) \<and>
          Y (speed (heap s' ! a)) = k * Y (speed (heap s ! a))) \<and>
       billBalls s' ! i = Some a \<and> wellFormed s'"
proof -
  let ?b = "heap s ! a"
  let ?v = "speed ?b"
  from friction_scales [of ?b] obtain k where k: "0 \<le> k" "k \<le> 1"
    "\<not> floatInfinite (X ?v * X ?v + Y ?v * Y ?v) \<longrightarrow>
       k = 0 \<or> k * magnitude ?v \<le> magnitude ?v - frictionDeceleration"
    and fr: "friction ?b = Inr (?b\<lparr>speed := \<lparr>X = k * X ?v, Y = k * Y ?v\<rparr>\<rparr>)"
    by blast
  let ?c = "?b\<lparr>speed := \<lparr>X = k * X ?v, Y = k * Y ?v\<rparr>\<rparr>"
  obtain c' p where bd: "boundary ?c (getNextPosition ?b dt) = (c', p)"
    by (cases "boundary ?c (getNextPosition ?b dt)")
  note U = undisturbed_frame [OF wf i7 slot und run fr bd]
  have sp: "speed (heap s' ! a) = speed c'" using U by (simp add: setPosition_speed)
  note B = boundary_facts [OF bd]
  have ax: "\<bar>X (speed (heap s' ! a))\<bar> = k * \<bar>X ?v\<bar>"
    using B(2) k(1) by (simp add: sp abs_mult)
  have ay: "\<bar>Y (speed (heap s' ! a))\<bar> = k * \<bar>Y ?v\<bar>"
    using B(3) k(1) by (simp add: sp abs_mult)
  have mg: "magnitude (speed (heap s' ! a)) = k * magnitude ?v"
    using B(4) magnitude_scaled [OF k(1), of ?v] by (simp add: sp)
  have ins: "\<not> outside (getNextPosition ?b dt) \<longrightarrow>
          X (speed (heap s' ! a)) = k * X ?v \<and> Y (speed (heap s' ! a)) = k * Y ?v"
    using B(6) by (auto simp: sp)
  have sl: "billBalls s' ! i = Some a" and wf': "wellFormed s'" using U by simp_all
  show ?thesis
    by (intro exI [of _ k] conjI k fr ax ay mg ins sl wf')
qed

lemma undisturbed_magnitude:
  assumes wf: "wellFormed s" and i7: "i < 7" and slot: "billBalls s ! i = Some a"
    and und: "undisturbed dt i s" and run: "update dt s = Inr s'"
    and mod: "magnitude (speed (heap s ! a)) \<le> 1000"
  shows "billBalls s' ! i = Some a" and "wellFormed s'"
    and "magnitude (speed (heap s' ! a)) = 0 \<or>
         magnitude (speed (heap s' ! a))
            \<le> magnitude (speed (heap s ! a)) - frictionDeceleration"
    and "magnitude (speed (heap s' ! a)) \<le> 1000"
proof -
  let ?m = "magnitude (speed (heap s ! a))"
  from undisturbed_speed [OF wf i7 slot und run] obtain k where
    k: "0 \<le> k" "k \<le> 1"
    and kk: "\<not> floatInfinite (X (speed (heap s ! a)) * X (speed (heap s ! a)) +
                          Y (speed (heap s ! a)) * Y (speed (heap s ! a))) \<longrightarrow>
          k = 0 \<or> k * ?m \<le> ?m - frictionDeceleration"
    and m: "magnitude (speed (heap s' ! a)) = k * ?m"
    and r: "billBalls s' ! i = Some a" "wellFormed s'"
    by blast
  show "billBalls s' ! i = Some a" "wellFormed s'" by (rule r)+
  have "k = 0 \<or> k * ?m \<le> ?m - frictionDeceleration"
    using kk moderate_finite [OF mod] by blast
  then show "magnitude (speed (heap s' ! a)) = 0 \<or>
         magnitude (speed (heap s' ! a)) \<le> ?m - frictionDeceleration"
    unfolding m by auto
  have "k * ?m \<le> 1 * ?m"
    using k(2) magnitude_nonneg [of "speed (heap s ! a)"] by (intro mult_right_mono)
  then show "magnitude (speed (heap s' ! a)) \<le> 1000" unfolding m using mod by simp
qed

lemma run_updates_Cons:
  "run (map Update (dt # dts)) s =
     (case update dt s of Inl e \<Rightarrow> Inl e | Inr s' \<Rightarrow> run (map Update dts) s')"
  by simp

lemma quiet_frames:
  assumes "wellFormed s" and "i < 7" and "billBalls s ! i = Some a"
    and "quiet i dts s" and "run (map Update dts) s = Inr s'"
    and "magnitude (speed (heap s ! a)) \<le> 1000"
  shows "billBalls s' ! i = Some a \<and> wellFormed s' \<and>
     (magnitude (speed (heap s' ! a)) = 0 \<or>
      magnitude (speed (heap s' ! a))
         \<le> magnitude (speed (heap s ! a)) - real (length dts) * frictionDeceleration)"
  using assms
proof (induction dts arbitrary: s)
  case Nil
  then show ?case by simp
next
  case (Cons dt dts)
  from Cons.prems(5) obtain u where u: "update dt s = Inr u"
    and r: "run (map Update dts) u = Inr s'"
    unfolding run_updates_Cons by (cases "update dt s") simp_all
  have und: "undisturbed dt i s" and q: "quiet i dts u"
    using Cons.prems(4) u by simp_all
  note M = undisturbed_magnitude [OF Cons.prems(1-3) und u Cons.prems(6)]
  note IH = Cons.IH [OF M(2) Cons.prems(2) M(1) q r M(4)]
  have d0: "0 < frictionDeceleration" by (simp add: frictionDeceleration_def)
  have n0: "0 \<le> real (length dts) * frictionDeceleration" using d0 by simp
  have "magnitude (speed (heap s' ! a)) = 0 \<or>
      magnitude (speed (heap s' ! a))
         \<le> magnitude (speed (heap s ! a)) - real (length (dt # dts)) * frictionDeceleration"
  proof (cases "magnitude (speed (heap s' ! a)) = 0")
    case True
    then show ?thesis by simp
  next
    case False
    then have a: "magnitude (speed (heap s' ! a))
         \<le> magnitude (speed (heap u ! a)) - real (length dts) * frictionDeceleration"
      using IH by simp
    have "magnitude (speed (heap u ! a)) \<noteq> 0"
      using a False n0 magnitude_nonneg [of "speed (heap s' ! a)"] by linarith
    then have "magnitude (speed (heap u ! a))
            \<le> magnitude (speed (heap s ! a)) - frictionDeceleration"
      using M(3) by simp
    then show ?thesis using a by (simp add: algebra_simps)
  qed
  then show ?case using IH by simp
qed

text \<open>
  Claim C5, amended. Take a ball whose speed has a magnitude of at most 1000 and that
  in a frame is not captured and takes part in no collision. A speed that is not zero
  gets strictly smaller in magnitude: it becomes zero or loses at least half of
  \<open>frictionDeceleration\<close> (all of it in exact arithmetic; the margin is what
  rounding can take). A speed that is zero stays zero. Friction never turns the speed
  round: neither component changes its sign or grows; after friction the frame
  changes the components at most in sign (at an edge), and where the ball meets no
  edge the new speed is the one friction left. Over frames in each of which the
  ball is undisturbed, the speed is exactly zero after any number \<open>n\<close> of frames
  with \<open>n * frictionDeceleration\<close> at least twice the initial magnitude (at least the
  initial magnitude in exact arithmetic).

  The bound on the speed keeps it where \<^verbatim>\<open>float\<close> resolves the subtraction of
  \<open>frictionDeceleration\<close> and where the squared length is finite.
\<close>

theorem friction_stops_undisturbed_ball:
  "(wellFormed s \<and> i < 7 \<and> billBalls s ! i = Some a \<and> undisturbed dt i s \<and>
    update dt s = Inr s' \<and> magnitude (speed (heap s ! a)) \<le> 1000 \<longrightarrow>
      billBalls s' ! i = Some a \<and>
      (magnitude (speed (heap s ! a)) \<noteq> 0 \<longrightarrow>
         magnitude (speed (heap s' ! a)) < magnitude (speed (heap s ! a))) \<and>
      (magnitude (speed (heap s' ! a)) = 0 \<or>
       magnitude (speed (heap s' ! a))
         \<le> magnitude (speed (heap s ! a)) - frictionDeceleration / 2) \<and>
      (speed (heap s ! a) = \<lparr>X = 0, Y = 0\<rparr> \<longrightarrow> speed (heap s' ! a) = \<lparr>X = 0, Y = 0\<rparr>) \<and>
      (\<exists>c. friction (heap s ! a) = Inr c \<and>
         0 \<le> X (speed c) * X (speed (heap s ! a)) \<and>
         0 \<le> Y (speed c) * Y (speed (heap s ! a)) \<and>
         \<bar>X (speed c)\<bar> \<le> \<bar>X (speed (heap s ! a))\<bar> \<and>
         \<bar>Y (speed c)\<bar> \<le> \<bar>Y (speed (heap s ! a))\<bar> \<and>
         \<bar>X (speed (heap s' ! a))\<bar> = \<bar>X (speed c)\<bar> \<and>
         \<bar>Y (speed (heap s' ! a))\<bar> = \<bar>Y (speed c)\<bar> \<and>
         (\<not> outside (getNextPosition (heap s ! a) dt) \<longrightarrow>
            speed (heap s' ! a) = speed c))) \<and>
   (wellFormed s \<and> i < 7 \<and> billBalls s ! i = Some a \<and> quiet i dts s \<and>
    run (map Update dts) s = Inr s'' \<and> magnitude (speed (heap s ! a)) \<le> 1000 \<and>
    2 * magnitude (speed (heap s ! a)) \<le> real (length dts) * frictionDeceleration \<longrightarrow>
      billBalls s'' ! i = Some a \<and> speed (heap s'' ! a) = \<lparr>X = 0, Y = 0\<rparr>)"
proof (intro conjI impI)
  assume h: "wellFormed s \<and> i < 7 \<and> billBalls s ! i = Some a \<and> undisturbed dt i s \<and>
    update dt s = Inr s' \<and> magnitude (speed (heap s ! a)) \<le> 1000"
  then have wf: "wellFormed s" and i7: "i < 7" and slot: "billBalls s ! i = Some a"
    and und: "undisturbed dt i s" and run: "update dt s = Inr s'"
    and mod: "magnitude (speed (heap s ! a)) \<le> 1000" by simp_all
  let ?v = "speed (heap s ! a)" and ?v' = "speed (heap s' ! a)"
  have d0: "0 < frictionDeceleration" by (simp add: frictionDeceleration_def)
  from undisturbed_speed [OF wf i7 slot und run] obtain k where
    k: "0 \<le> k" "k \<le> 1"
    and fr: "friction (heap s ! a) =
         Inr ((heap s ! a)\<lparr>speed := \<lparr>X = k * X ?v, Y = k * Y ?v\<rparr>\<rparr>)"
    and ab: "\<bar>X ?v'\<bar> = k * \<bar>X ?v\<bar>" "\<bar>Y ?v'\<bar> = k * \<bar>Y ?v\<bar>"
    and ins: "\<not> outside (getNextPosition (heap s ! a) dt) \<longrightarrow>
          X ?v' = k * X ?v \<and> Y ?v' = k * Y ?v"
    by blast
  note M = undisturbed_magnitude [OF wf i7 slot und run mod]
  show "billBalls s' ! i = Some a" by (rule M(1))
  show "magnitude ?v' < magnitude ?v" if "magnitude ?v \<noteq> 0"
  proof -
    have "0 < magnitude ?v" using that magnitude_nonneg [of ?v] by simp
    then show ?thesis using M(3) d0 by linarith
  qed
  show "magnitude ?v' = 0 \<or> magnitude ?v' \<le> magnitude ?v - frictionDeceleration / 2"
    using M(3) d0 by linarith
  show "?v' = \<lparr>X = 0, Y = 0\<rparr>" if "?v = \<lparr>X = 0, Y = 0\<rparr>"
    using ab that by simp
  let ?c = "(heap s ! a)\<lparr>speed := \<lparr>X = k * X ?v, Y = k * Y ?v\<rparr>\<rparr>"
  have sx: "0 \<le> X (speed ?c) * X ?v" "0 \<le> Y (speed ?c) * Y ?v"
    using k(1) by (simp_all add: mult.assoc)
  have lx: "\<bar>X (speed ?c)\<bar> \<le> \<bar>X ?v\<bar>"
    using k mult_right_mono [of k 1 "\<bar>X ?v\<bar>"] by (simp add: abs_mult)
  have ly: "\<bar>Y (speed ?c)\<bar> \<le> \<bar>Y ?v\<bar>"
    using k mult_right_mono [of k 1 "\<bar>Y ?v\<bar>"] by (simp add: abs_mult)
  have ex: "\<bar>X ?v'\<bar> = \<bar>X (speed ?c)\<bar>" "\<bar>Y ?v'\<bar> = \<bar>Y (speed ?c)\<bar>"
    using ab k(1) by (simp_all add: abs_mult)
  have eq: "\<not> outside (getNextPosition (heap s ! a) dt) \<longrightarrow> ?v' = speed ?c"
    using ins by (auto intro!: Vector2.equality)
  show "\<exists>c. friction (heap s ! a) = Inr c \<and>
         0 \<le> X (speed c) * X ?v \<and> 0 \<le> Y (speed c) * Y ?v \<and>
         \<bar>X (speed c)\<bar> \<le> \<bar>X ?v\<bar> \<and> \<bar>Y (speed c)\<bar> \<le> \<bar>Y ?v\<bar> \<and>
         \<bar>X ?v'\<bar> = \<bar>X (speed c)\<bar> \<and> \<bar>Y ?v'\<bar> = \<bar>Y (speed c)\<bar> \<and>
         (\<not> outside (getNextPosition (heap s ! a) dt) \<longrightarrow> ?v' = speed c)"
    by (intro exI [of _ ?c] conjI fr sx lx ly ex eq)
next
  assume h: "wellFormed s \<and> i < 7 \<and> billBalls s ! i = Some a \<and> quiet i dts s \<and>
    run (map Update dts) s = Inr s'' \<and> magnitude (speed (heap s ! a)) \<le> 1000 \<and>
    2 * magnitude (speed (heap s ! a)) \<le> real (length dts) * frictionDeceleration"
  then have Q: "billBalls s'' ! i = Some a \<and> wellFormed s'' \<and>
     (magnitude (speed (heap s'' ! a)) = 0 \<or>
      magnitude (speed (heap s'' ! a))
         \<le> magnitude (speed (heap s ! a)) - real (length dts) * frictionDeceleration)"
    by (intro quiet_frames) simp_all
  then show "billBalls s'' ! i = Some a" by simp
  have "magnitude (speed (heap s'' ! a)) = 0"
    using Q h magnitude_nonneg [of "speed (heap s'' ! a)"]
      magnitude_nonneg [of "speed (heap s ! a)"] by linarith
  then show "speed (heap s'' ! a) = \<lparr>X = 0, Y = 0\<rparr>"
    by (simp add: magnitude_zero_iff)
qed

section \<open>Tables with empty slots\<close>

lemma less7: "i < 7 \<longleftrightarrow> i = 0 \<or> i = 1 \<or> i = 2 \<or> i = 3 \<or> i = 4 \<or> i = 5 \<or> i = (6::nat)"
  by arith

lemma ballsLoop_empty:
  "\<forall>j \<in> set js. billBalls s ! j = None \<Longrightarrow> ballsLoop dt js s = Inr s"
  by (induction js) (simp_all add: updateBall_empty)

lemma moveBall_slots:
  assumes "moveBall dt j a s = Inr (sc, p, s2)"
  shows "billBalls s2 ! l = billBalls s ! l \<or> billBalls s2 ! l = None"
proof -
  have pl: "pocketsLoop j q ps (sc0, s0) = Inr (sc1, s1) \<Longrightarrow>
      billBalls s1 ! l = billBalls s0 ! l \<or> billBalls s1 ! l = None" for q ps sc0 s0 sc1 s1
  proof (induction ps arbitrary: sc0 s0)
    case Nil
    then show ?case by simp
  next
    case (Cons x ps)
    show ?case
    proof (cases "distance q x < pocketRadius")
      case False
      then show ?thesis using Cons by simp
    next
      case True
      with Cons.prems obtain s0' where sc: "score j s0 = Inr s0'"
        and r: "pocketsLoop j q ps (True, s0') = Inr (sc1, s1)"
        by (auto split: sum.splits)
      have "billBalls s0' ! l = billBalls s0 ! l \<or> billBalls s0' ! l = None"
        using sc by (auto simp: score_def nth_update_cases split: option.splits if_splits)
      then show ?thesis using Cons.IH [OF r] by auto
    qed
  qed
  from assms show ?thesis
    by (auto simp: moveBall_def Let_def split: sum.splits prod.splits if_splits dest: pl)
qed

lemma hits_empty_partner:
  assumes "billBalls s ! l = None"
  shows "\<not> hits dt j l s"
proof
  assume h: "hits dt j l s"
  then obtain a where a: "billBalls s ! j = Some a"
    by (auto simp: hits_def split: option.splits)
  from h a obtain sc p s2 where m: "moveBall dt j a s = Inr (sc, p, s2)"
    by (auto simp: hits_def split: sum.splits)
  from h a m obtain p' s3 where c: "collisions j a [Suc j ..< l] (p, s2) = Inr (p', s3)"
    and b: "billBalls s3 ! l \<noteq> None"
    by (auto simp: hits_def split: sum.splits option.splits)
  have "billBalls s3 = billBalls s2" using collisions_frame [OF c] by simp
  moreover have "billBalls s2 ! l = None" using moveBall_slots [OF m, of l] assms by auto
  ultimately show False using b by simp
qed

lemma hits_empty_slot: "billBalls s ! j = None \<Longrightarrow> \<not> hits dt j l s"
  by (simp add: hits_def)

lemma untouchedBy_empty:
  "\<forall>j \<in> set js. billBalls s ! j = None \<Longrightarrow> untouchedBy dt i js s"
  by (induction js) (simp_all add: updateBall_empty hits_empty_slot)

lemma pocketed_charge: "pocketed dt' i (charge dt s) = pocketed dt' i s"
  by (simp add: pocketed_def charge_fields cong: option.case_cong)

text \<open>
  The frame of a table whose only ball is in slot \<open>i\<close>: the ball is undisturbed
  unless a pocket takes it, and the frame returns.
\<close>

lemma update_alone:
  assumes wf: "wellFormed s" and i7: "i < 7" and slot: "billBalls s ! i = Some a"
    and alone: "\<forall>l \<in> set [0 ..< 7]. l \<noteq> i \<longrightarrow> billBalls s ! l = None"
    and np: "\<not> pocketed dt i s"
    and fr: "friction (heap s ! a) = Inr c"
    and bd: "boundary c (getNextPosition (heap s ! a) dt) = (c', p)"
  shows "update dt s =
     Inr ((charge dt s)\<lparr>heap := (heap s)[a := setPosition c' p],
            scene := scene (charge dt s) @ [placeMesh (gameMesh (heap s ! a)) (X p) (Y p) 0]\<rparr>)"
    and "undisturbed dt i s"
proof -
  let ?t = "charge dt s"
  have len: "length (billBalls s) = 7" using wf by (rule wellFormed_slots)
  have pre: "\<forall>j \<in> set [0 ..< i]. billBalls ?t ! j = None"
    using alone i7 by (simp add: charge_fields)
  have post: "\<forall>j \<in> set [Suc i ..< 7]. billBalls ?t ! j = None"
    using alone by (simp add: charge_fields)
  have t: "ballsLoop dt [0 ..< i] ?t = Inr ?t" by (rule ballsLoop_empty [OF pre])
  have nh: "\<forall>l \<in> set [Suc i ..< 7]. \<not> hits dt i l ?t"
    using post by (simp add: hits_empty_partner)
  have al: "a < length (heap ?t)"
    using wellFormed_addr [OF wf i7 slot] by (simp add: charge_fields)
  have own: "updateBall dt i ?t =
     Inr (?t\<lparr>heap := (heap ?t)[a := setPosition c' p],
            scene := scene ?t @ [placeMesh (gameMesh (heap ?t ! a)) (X p) (Y p) 0]\<rparr>)"
    using own_turn_result [of ?t i a dt c c' p] slot np fr bd len nh al
    by (simp add: charge_fields pocketed_charge)
  let ?u = "?t\<lparr>heap := (heap ?t)[a := setPosition c' p],
            scene := scene ?t @ [placeMesh (gameMesh (heap ?t ! a)) (X p) (Y p) 0]\<rparr>"
  have "\<forall>j \<in> set [Suc i ..< 7]. billBalls ?u ! j = None" using post by simp
  then have rest: "ballsLoop dt [Suc i ..< 7] ?u = Inr ?u" by (rule ballsLoop_empty)
  show "update dt s =
     Inr ((charge dt s)\<lparr>heap := (heap s)[a := setPosition c' p],
            scene := scene (charge dt s) @ [placeMesh (gameMesh (heap s ! a)) (X p) (Y p) 0]\<rparr>)"
    unfolding update_split [OF i7 len] t using own rest by (simp add: charge_fields)
  show "undisturbed dt i s"
    unfolding undisturbed_def t using untouchedBy_empty [OF pre] np nh
    by (simp add: pocketed_charge)
qed

lemma update_alone_pocketed:
  assumes wf: "wellFormed s" and i7: "i < 7" and slot: "billBalls s ! i = Some a"
    and alone: "\<forall>l \<in> set [0 ..< 7]. l \<noteq> i \<longrightarrow> billBalls s ! l = None"
    and pk: "pocketed dt i s"
  shows "update dt s =
     Inr ((charge dt s)\<lparr>scene := scene (charge dt s) @ [destroyMesh (gameMesh (heap s ! a))],
            billBalls := (billBalls s)[i := None]\<rparr>)"
    and "ballsLoop dt [0 ..< i] (charge dt s) = Inr (charge dt s)"
proof -
  let ?t = "charge dt s"
  have len: "length (billBalls s) = 7" using wf by (rule wellFormed_slots)
  have pre: "\<forall>j \<in> set [0 ..< i]. billBalls ?t ! j = None"
    using alone i7 by (simp add: charge_fields)
  have post: "\<forall>j \<in> set [Suc i ..< 7]. billBalls ?t ! j = None"
    using alone by (simp add: charge_fields)
  show t: "ballsLoop dt [0 ..< i] ?t = Inr ?t" by (rule ballsLoop_empty [OF pre])
  have own: "updateBall dt i ?t =
     Inr (?t\<lparr>scene := scene ?t @ [destroyMesh (gameMesh (heap ?t ! a))],
            billBalls := (billBalls ?t)[i := None]\<rparr>)"
    using updateBall_pocketed [of ?t i a dt] slot pk
    by (simp add: charge_fields pocketed_charge)
  let ?u = "?t\<lparr>scene := scene ?t @ [destroyMesh (gameMesh (heap ?t ! a))],
            billBalls := (billBalls ?t)[i := None]\<rparr>"
  have "\<forall>j \<in> set [Suc i ..< 7]. billBalls ?u ! j = None" using post by simp
  then have rest: "ballsLoop dt [Suc i ..< 7] ?u = Inr ?u" by (rule ballsLoop_empty)
  show "update dt s =
     Inr ((charge dt s)\<lparr>scene := scene (charge dt s) @ [destroyMesh (gameMesh (heap s ! a))],
            billBalls := (billBalls s)[i := None]\<rparr>)"
    unfolding update_split [OF i7 len] t using own rest by (simp add: charge_fields)
qed

text \<open>A table whose only ball is in slot 0, at address 0, is well formed.\<close>

lemma wellFormed_cue_alone:
  assumes "billBalls s = [Some 0, None, None, None, None, None, None]"
    and "0 < length (heap s)"
  shows "wellFormed s"
    and "\<forall>l \<in> set [0 ..< 7]. l \<noteq> 0 \<longrightarrow> billBalls s ! l = None"
  using assms by (auto simp: wellFormed_def less7 upt_rec)

section \<open>Friction at concrete tables\<close>

text \<open>
  The claim as the specification states it is for every speed that is not zero. On
  the table with the cue ball alone, at the centre with speed \<^verbatim>\<open>(2e19, 0)\<close>, the
  squared length of the speed is infinite, the normalised speed is \<open>(0, 0)\<close> and
  friction subtracts nothing: the ball is not captured, meets no other ball, is turned
  round at two edges, and leaves the frame with the speed it had.
\<close>

theorem fast_ball_keeps_speed_counterexample:
  "friction \<lparr>position = \<lparr>X = 0, Y = 0\<rparr>, speed = \<lparr>X = 2 * 10 ^ 19, Y = 0\<rparr>, gameMesh = 0\<rparr>
     = Inr \<lparr>position = \<lparr>X = 0, Y = 0\<rparr>, speed = \<lparr>X = 2 * 10 ^ 19, Y = 0\<rparr>, gameMesh = 0\<rparr> \<and>
   wellFormed
     \<lparr>heap = [\<lparr>position = \<lparr>X = 0, Y = 0\<rparr>, speed = \<lparr>X = 2 * 10 ^ 19, Y = 0\<rparr>, gameMesh = 0\<rparr>],
      billBalls = [Some 0, None, None, None, None, None, None], ballToHit = 0,
      isChargingShot = False, shotChargeProgress = 0, scene = []\<rparr> \<and>
   undisturbed 1 0
     \<lparr>heap = [\<lparr>position = \<lparr>X = 0, Y = 0\<rparr>, speed = \<lparr>X = 2 * 10 ^ 19, Y = 0\<rparr>, gameMesh = 0\<rparr>],
      billBalls = [Some 0, None, None, None, None, None, None], ballToHit = 0,
      isChargingShot = False, shotChargeProgress = 0, scene = []\<rparr> \<and>
   update 1
     \<lparr>heap = [\<lparr>position = \<lparr>X = 0, Y = 0\<rparr>, speed = \<lparr>X = 2 * 10 ^ 19, Y = 0\<rparr>, gameMesh = 0\<rparr>],
      billBalls = [Some 0, None, None, None, None, None, None], ballToHit = 0,
      isChargingShot = False, shotChargeProgress = 0, scene = []\<rparr>
   = Inr
     \<lparr>heap = [\<lparr>position = \<lparr>X = - (2 * 10 ^ 19) - 14.4, Y = 0\<rparr>,
               speed = \<lparr>X = 2 * 10 ^ 19, Y = 0\<rparr>, gameMesh = 0\<rparr>],
      billBalls = [Some 0, None, None, None, None, None, None], ballToHit = 0,
      isChargingShot = False, shotChargeProgress = 0,
      scene = [updateProgressBar 0, placeMesh 0 (- (2 * 10 ^ 19) - 14.4) 0 0]\<rparr>"
proof -
  define b0 where "b0 = \<lparr>position = \<lparr>X = 0, Y = 0\<rparr>, speed = \<lparr>X = 2 * 10 ^ 19, Y = 0\<rparr>, gameMesh = 0\<rparr>"
  define s0 where "s0 = \<lparr>heap = [b0],
      billBalls = [Some 0, None, None, None, None, None, None], ballToHit = 0,
      isChargingShot = False, shotChargeProgress = 0, scene = []\<rparr>"
  define c0 where "c0 = \<lparr>position = \<lparr>X = - (2 * 10 ^ 19) - 14.4, Y = 0\<rparr>,
               speed = \<lparr>X = 2 * 10 ^ 19, Y = 0\<rparr>, gameMesh = 0\<rparr>"
  define s1 where "s1 = \<lparr>heap = [c0],
      billBalls = [Some 0, None, None, None, None, None, None], ballToHit = 0,
      isChargingShot = False, shotChargeProgress = 0,
      scene = [updateProgressBar 0, placeMesh 0 (- (2 * 10 ^ 19) - 14.4) 0 0]\<rparr>"
  have wf0: "wellFormed s0" and al0: "\<forall>l \<in> set [0 ..< 7]. l \<noteq> 0 \<longrightarrow> billBalls s0 ! l = None"
    by (rule wellFormed_cue_alone; simp add: s0_def)+
  have slot0: "billBalls s0 ! 0 = Some 0" by (simp add: s0_def)
  have h0: "heap s0 ! 0 = b0" by (simp add: s0_def)
  have np0: "\<not> pocketed 1 0 s0"
    by (simp add: pocketed_def slot0 h0 b0_def getNextPosition_def pocketsPositions_def
        distance_less_pocket width_def height_def)
  have fr: "friction b0 = Inr b0"
    by (simp add: b0_def friction_def normalizedVector_def floatSquare_def floatInfinite_def
        getSpeed_def setSpeed_def Let_def frictionDeceleration_def)
  have fr0: "friction (heap s0 ! 0) = Inr b0" unfolding h0 by (rule fr)
  have bd0: "boundary b0 (getNextPosition (heap s0 ! 0) 1)
      = (c0, \<lparr>X = - (2 * 10 ^ 19) - 14.4, Y = 0\<rparr>)"
    by (simp add: h0 b0_def c0_def getNextPosition_def boundary_def outside_def ricochet_def
        Let_def getPosition_def getSpeed_def setPosition_def setSpeed_def radius_def
        width_def height_def)
  note U0 = update_alone [OF wf0 _ slot0 al0 np0 fr0 bd0]
  have u0: "update 1 s0 = Inr s1"
    using U0(1) by (simp add: s0_def s1_def c0_def b0_def charge_def setPosition_def)
  have und0: "undisturbed 1 0 s0" using U0(2) by simp
  have "friction b0 = Inr b0 \<and> wellFormed s0 \<and> undisturbed 1 0 s0 \<and> update 1 s0 = Inr s1"
    by (intro conjI fr wf0 und0 u0)
  then show ?thesis unfolding s0_def s1_def b0_def c0_def .
qed

text \<open>
  The theorem on the table with the cue ball alone, at the centre with speed
  \<open>(0.004, 0)\<close>: one frame leaves speed \<open>(0.001, 0)\<close>, the next stops the ball, and
  in the third it stays at rest. The heap lists the cue ball's object only; the
  objects of the pocketed balls, which no slot names any more, are left out.
\<close>

theorem friction_stops_undisturbed_ball_witness:
  "wellFormed \<lparr>heap = [\<lparr>position = \<lparr>X = 0, Y = 0\<rparr>, speed = \<lparr>X = 0.004, Y = 0\<rparr>, gameMesh = 0\<rparr>],
      billBalls = [Some 0, None, None, None, None, None, None], ballToHit = 0,
      isChargingShot = False, shotChargeProgress = 0, scene = []\<rparr> \<and>
   undisturbed 1 0 \<lparr>heap = [\<lparr>position = \<lparr>X = 0, Y = 0\<rparr>, speed = \<lparr>X = 0.004, Y = 0\<rparr>, gameMesh = 0\<rparr>],
      billBalls = [Some 0, None, None, None, None, None, None], ballToHit = 0,
      isChargingShot = False, shotChargeProgress = 0, scene = []\<rparr> \<and>
   quiet 0 [1, 1, 1] \<lparr>heap = [\<lparr>position = \<lparr>X = 0, Y = 0\<rparr>, speed = \<lparr>X = 0.004, Y = 0\<rparr>, gameMesh = 0\<rparr>],
      billBalls = [Some 0, None, None, None, None, None, None], ballToHit = 0,
      isChargingShot = False, shotChargeProgress = 0, scene = []\<rparr> \<and>
   magnitude \<lparr>X = 0.004, Y = 0\<rparr> \<le> 1000 \<and>
   2 * magnitude \<lparr>X = 0.004, Y = 0\<rparr> \<le> real (length [1, 1, 1 :: real]) * frictionDeceleration \<and>
   (\<exists>s'. update 1 \<lparr>heap = [\<lparr>position = \<lparr>X = 0, Y = 0\<rparr>, speed = \<lparr>X = 0.004, Y = 0\<rparr>, gameMesh = 0\<rparr>],
      billBalls = [Some 0, None, None, None, None, None, None], ballToHit = 0,
      isChargingShot = False, shotChargeProgress = 0, scene = []\<rparr> = Inr s' \<and>
      speed (heap s' ! 0) = \<lparr>X = 0.001, Y = 0\<rparr> \<and>
      magnitude (speed (heap s' ! 0)) < 0.004) \<and>
   (\<exists>s''. run (map Update [1, 1, 1])
      \<lparr>heap = [\<lparr>position = \<lparr>X = 0, Y = 0\<rparr>, speed = \<lparr>X = 0.004, Y = 0\<rparr>, gameMesh = 0\<rparr>],
      billBalls = [Some 0, None, None, None, None, None, None], ballToHit = 0,
      isChargingShot = False, shotChargeProgress = 0, scene = []\<rparr> = Inr s'' \<and>
      billBalls s'' ! 0 = Some 0 \<and> speed (heap s'' ! 0) = \<lparr>X = 0, Y = 0\<rparr>)"
proof -
  define b0 where "b0 = \<lparr>position = \<lparr>X = 0, Y = 0\<rparr>, speed = \<lparr>X = 0.004, Y = 0\<rparr>, gameMesh = 0\<rparr>"
  define s0 where "s0 = \<lparr>heap = [b0],
      billBalls = [Some 0, None, None, None, None, None, None], ballToHit = 0,
      isChargingShot = False, shotChargeProgress = 0, scene = []\<rparr>"
  have wf0: "wellFormed s0" and al0: "\<forall>l \<in> set [0 ..< 7]. l \<noteq> 0 \<longrightarrow> billBalls s0 ! l = None"
    by (rule wellFormed_cue_alone; simp add: s0_def)+
  have slot0: "billBalls s0 ! 0 = Some 0" by (simp add: s0_def)
  have h0: "heap s0 ! 0 = b0" by (simp add: s0_def)
  have np0: "\<not> pocketed 1 0 s0"
    by (simp add: pocketed_def slot0 h0 b0_def getNextPosition_def pocketsPositions_def
        distance_less_pocket width_def height_def)
  have m0: "magnitude (speed b0) = 0.004" by (simp add: b0_def magnitude_along_x)
  have mm: "magnitude \<lparr>X = 0.004, Y = 0\<rparr> = 0.004" by (simp add: magnitude_along_x)
  have slow: "\<not> magnitude (speed b0) * magnitude (speed b0)
           \<le> frictionDeceleration * frictionDeceleration * 1.1"
    by (simp add: m0 frictionDeceleration_def)
  have ir0: "inRange (speed b0)"
    by (simp add: b0_def inRange_def floatSquare_def floatInfinite_def)
  define c0 where "c0 = b0\<lparr>speed := \<lparr>X = 0.001, Y = 0\<rparr>\<rparr>"
  have fr0: "friction (heap s0 ! 0) = Inr c0"
    using friction_slow [OF slow ir0]
    by (simp add: h0 m0 frictionDeceleration_def c0_def) (simp add: b0_def)
  have bd0: "boundary c0 (getNextPosition (heap s0 ! 0) 1) = (c0, \<lparr>X = 0.004, Y = 0\<rparr>)"
    by (simp add: h0 b0_def getNextPosition_def boundary_def outside_def radius_def
        width_def height_def)
  note U0 = update_alone [OF wf0 _ slot0 al0 np0 fr0 bd0]
  define b1 where "b1 = \<lparr>position = \<lparr>X = 0.004, Y = 0\<rparr>, speed = \<lparr>X = 0.001, Y = 0\<rparr>, gameMesh = 0\<rparr>"
  define s1 where "s1 = \<lparr>heap = [b1],
      billBalls = [Some 0, None, None, None, None, None, None], ballToHit = 0,
      isChargingShot = False, shotChargeProgress = 0,
      scene = [updateProgressBar 0, placeMesh 0 0.004 0 0]\<rparr>"
  have u0: "update 1 s0 = Inr s1"
    using U0(1) by (simp add: s0_def s1_def b1_def c0_def b0_def charge_def setPosition_def)
  have und0: "undisturbed 1 0 s0" using U0(2) by simp
  have wf1: "wellFormed s1" and al1: "\<forall>l \<in> set [0 ..< 7]. l \<noteq> 0 \<longrightarrow> billBalls s1 ! l = None"
    by (rule wellFormed_cue_alone; simp add: s1_def)+
  have slot1: "billBalls s1 ! 0 = Some 0" by (simp add: s1_def)
  have h1: "heap s1 ! 0 = b1" by (simp add: s1_def)
  have np1: "\<not> pocketed 1 0 s1"
    by (simp add: pocketed_def slot1 h1 b1_def getNextPosition_def pocketsPositions_def
        distance_less_pocket width_def height_def)
  define c1 where "c1 = b1\<lparr>speed := \<lparr>X = 0, Y = 0\<rparr>\<rparr>"
  have fr1: "friction (heap s1 ! 0) = Inr c1"
    unfolding h1 c1_def
    by (rule friction_stop) (simp_all add: b1_def magnitude_along_x frictionDeceleration_def)
  have bd1: "boundary c1 (getNextPosition (heap s1 ! 0) 1) = (c1, \<lparr>X = 0.005, Y = 0\<rparr>)"
    by (simp add: h1 b1_def getNextPosition_def boundary_def outside_def radius_def
        width_def height_def)
  note U1 = update_alone [OF wf1 _ slot1 al1 np1 fr1 bd1]
  define b2 where "b2 = \<lparr>position = \<lparr>X = 0.005, Y = 0\<rparr>, speed = \<lparr>X = 0, Y = 0\<rparr>, gameMesh = 0\<rparr>"
  define s2 where "s2 = \<lparr>heap = [b2],
      billBalls = [Some 0, None, None, None, None, None, None], ballToHit = 0,
      isChargingShot = False, shotChargeProgress = 0,
      scene = [updateProgressBar 0, placeMesh 0 0.004 0 0,
               updateProgressBar 0, placeMesh 0 0.005 0 0]\<rparr>"
  have u1: "update 1 s1 = Inr s2"
    using U1(1) by (simp add: s1_def s2_def b2_def c1_def b1_def charge_def setPosition_def)
  have und1: "undisturbed 1 0 s1" using U1(2) by simp
  have wf2: "wellFormed s2" and al2: "\<forall>l \<in> set [0 ..< 7]. l \<noteq> 0 \<longrightarrow> billBalls s2 ! l = None"
    by (rule wellFormed_cue_alone; simp add: s2_def)+
  have slot2: "billBalls s2 ! 0 = Some 0" by (simp add: s2_def)
  have h2: "heap s2 ! 0 = b2" by (simp add: s2_def)
  have np2: "\<not> pocketed 1 0 s2"
    by (simp add: pocketed_def slot2 h2 b2_def getNextPosition_def pocketsPositions_def
        distance_less_pocket width_def height_def)
  have fr2: "friction (heap s2 ! 0) = Inr b2"
    unfolding h2 by (rule friction_rest) (simp add: b2_def)
  obtain c' p where bd2: "boundary b2 (getNextPosition (heap s2 ! 0) 1) = (c', p)"
    by (cases "boundary b2 (getNextPosition (heap s2 ! 0) 1)")
  note U2 = update_alone [OF wf2 _ slot2 al2 np2 fr2 bd2]
  have und2: "undisturbed 1 0 s2" using U2(2) by simp
  obtain s3 where u2: "update 1 s2 = Inr s3" using U2(1) by simp
  have q: "quiet 0 [1, 1, 1] s0" using und0 und1 und2 u0 u1 u2 by simp
  have r: "run (map Update [1, 1, 1]) s0 = Inr s3" using u0 u1 u2 by simp
  have mod: "magnitude (speed (heap s0 ! 0)) \<le> 1000" by (simp add: h0 m0)
  have mle: "2 * magnitude (speed (heap s0 ! 0))
      \<le> real (length [1, 1, 1 :: real]) * frictionDeceleration"
    by (simp add: h0 m0 frictionDeceleration_def)
  note T = friction_stops_undisturbed_ball [of s0 0 0 1 s1 "[1, 1, 1]" s3]
  have fin: "billBalls s3 ! 0 = Some 0 \<and> speed (heap s3 ! 0) = \<lparr>X = 0, Y = 0\<rparr>"
    using T wf0 slot0 q r mod mle by simp
  have dec: "magnitude (speed (heap s1 ! 0)) < magnitude (speed (heap s0 ! 0))"
    using T wf0 slot0 und0 u0 mod by (simp add: h0 m0)
  have dec': "magnitude (speed (heap s1 ! 0)) < 0.004" using dec unfolding h0 m0 .
  have sp1: "speed (heap s1 ! 0) = \<lparr>X = 0.001, Y = 0\<rparr>" by (simp add: h1 b1_def)
  have E1: "\<exists>s'. update 1 s0 = Inr s' \<and> speed (heap s' ! 0) = \<lparr>X = 0.001, Y = 0\<rparr> \<and>
      magnitude (speed (heap s' ! 0)) < 0.004"
    using u0 sp1 dec' by blast
  have E2: "\<exists>s''. run (map Update [1, 1, 1]) s0 = Inr s'' \<and>
      billBalls s'' ! 0 = Some 0 \<and> speed (heap s'' ! 0) = \<lparr>X = 0, Y = 0\<rparr>"
    using r fin by blast
  have M1: "magnitude \<lparr>X = 0.004, Y = 0\<rparr> \<le> 1000" unfolding mm by simp
  have M2: "2 * magnitude \<lparr>X = 0.004, Y = 0\<rparr>
      \<le> real (length [1, 1, 1 :: real]) * frictionDeceleration"
    unfolding mm by (simp add: frictionDeceleration_def)
  have "wellFormed s0 \<and> undisturbed 1 0 s0 \<and> quiet 0 [1, 1, 1] s0 \<and>
    magnitude \<lparr>X = 0.004, Y = 0\<rparr> \<le> 1000 \<and>
    2 * magnitude \<lparr>X = 0.004, Y = 0\<rparr> \<le> real (length [1, 1, 1 :: real]) * frictionDeceleration \<and>
    (\<exists>s'. update 1 s0 = Inr s' \<and> speed (heap s' ! 0) = \<lparr>X = 0.001, Y = 0\<rparr> \<and>
      magnitude (speed (heap s' ! 0)) < 0.004) \<and>
    (\<exists>s''. run (map Update [1, 1, 1]) s0 = Inr s'' \<and>
      billBalls s'' ! 0 = Some 0 \<and> speed (heap s'' ! 0) = \<lparr>X = 0, Y = 0\<rparr>)"
    by (intro conjI wf0 und0 q M1 M2 E1 E2)
  then show ?thesis unfolding s0_def b0_def .
qed

section \<open>A ball at rest\<close>

lemma hits_elim:
  assumes "hits dt j l s"
  shows "\<exists>a p s2 p' s3 a2.
     billBalls s ! j = Some a \<and> moveBall dt j a s = Inr (False, p, s2) \<and> j < l \<and>
     collisions j a [Suc j ..< l] (p, s2) = Inr (p', s3) \<and>
     billBalls s3 ! l = Some a2 \<and> distance p' (position (heap s3 ! a2)) \<le> 2 * radius"
proof -
  from assms obtain a where a: "billBalls s ! j = Some a"
    by (auto simp: hits_def split: option.splits)
  from assms a obtain sc p s2 where m: "moveBall dt j a s = Inr (sc, p, s2)"
    by (auto simp: hits_def split: sum.splits)
  from assms a m have sc: "\<not> sc" and jl: "j < l" by (auto simp: hits_def)
  from assms a m obtain p' s3 where c: "collisions j a [Suc j ..< l] (p, s2) = Inr (p', s3)"
    by (auto simp: hits_def split: sum.splits)
  from assms a m c obtain a2 where "billBalls s3 ! l = Some a2"
    "distance p' (position (heap s3 ! a2)) \<le> 2 * radius"
    by (auto simp: hits_def getPosition_def split: option.splits)
  moreover have "moveBall dt j a s = Inr (False, p, s2)" using m sc by simp
  ultimately show ?thesis using a jl c by blast
qed

lemma getNextPosition_rest:
  "speed b = \<lparr>X = 0, Y = 0\<rparr> \<Longrightarrow> getNextPosition b dt = position b"
  by (simp add: getNextPosition_def)

lemma setPosition_same: "setPosition b (position b) = b"
  by (simp add: setPosition_def)

text \<open>
  A ball at rest, inside the table, away from the pockets and from the other balls,
  which no ball of a lower slot hits in this frame, is undisturbed in it.
\<close>

lemma resting_undisturbed:
  assumes wf: "wellFormed s" and i7: "i < 7" and slot: "billBalls s ! i = Some a"
    and rest: "speed (heap s ! a) = \<lparr>X = 0, Y = 0\<rparr>"
    and np: "\<forall>q \<in> set pocketsPositions. \<not> distance (position (heap s ! a)) q < pocketRadius"
    and ins: "\<not> outside (position (heap s ! a))"
    and far: "\<forall>l < 7. \<forall>a2. l \<noteq> i \<and> billBalls s ! l = Some a2 \<longrightarrow>
                \<not> distance (position (heap s ! a)) (position (heap s ! a2)) \<le> 2 * radius"
    and ut: "untouchedBy dt i [0 ..< i] (charge dt s)"
  shows "undisturbed dt i s"
proof (cases "ballsLoop dt [0 ..< i] (charge dt s)")
  case (Inl e)
  then show ?thesis using ut by (simp add: undisturbed_def)
next
  case (Inr t)
  let ?b = "heap s ! a"
  have wc: "wellFormed (charge dt s)" using wf by (simp add: wellFormed_charge)
  have lt: "\<forall>j \<in> set [0 ..< i]. j < i" by simp
  have pre: "heap t ! a = ?b" "billBalls t ! i = Some a" "wellFormed t"
    using untouched_prefix [OF wc i7 _ lt ut Inr, of a] slot by (simp_all add: charge_fields)
  have j7: "\<forall>j \<in> set [0 ..< i]. j < 7" using i7 by simp
  note F = ballsLoop_frame [OF Inr wc j7]
  have sub: "billBalls t ! k = billBalls s ! k \<or> billBalls t ! k = None" for k
    using F [THEN conjunct2, THEN conjunct2, THEN conjunct1, THEN spec, of k]
    by (simp add: charge_fields)
  have posF: "position (heap t ! b) = position (heap s ! b)"
    if "\<forall>j \<in> set [0 ..< i]. billBalls s ! j \<noteq> Some b" for b
    using F [THEN conjunct2, THEN conjunct2, THEN conjunct2, THEN conjunct2,
      THEN conjunct2, THEN conjunct2, THEN conjunct2, THEN conjunct2, THEN conjunct1,
      THEN spec, of b] that
    by (simp add: charge_fields)
  have npt: "\<not> pocketed dt i t"
    using np by (simp add: pocketed_def pre getNextPosition_rest [OF rest])
  have fr: "friction (heap t ! a) = Inr ?b" using friction_rest [OF rest] pre(1) by simp
  have bd: "boundary ?b (getNextPosition (heap t ! a) dt) = (?b, position ?b)"
    using ins by (simp add: pre(1) getNextPosition_rest [OF rest] boundary_inside)
  have tt: "t\<lparr>heap := (heap t)[a := ?b]\<rparr> = t"
    using pre(1) by (metis Game.surjective Game.update_convs(1) list_update_id)
  have mv: "moveBall dt i a t = Inr (False, position ?b, t)"
    using moveBall_free [OF pre(2) npt fr bd] tt by simp
  have nh: "\<not> hits dt i l t" if l: "l \<in> set [Suc i ..< 7]" for l
  proof
    assume "hits dt i l t"
    from hits_elim [OF this] pre(2) mv obtain p' s3 a2 where
      c: "collisions i a [Suc i ..< l] (position ?b, t) = Inr (p', s3)"
      and b: "billBalls s3 ! l = Some a2"
      and d: "distance p' (position (heap s3 ! a2)) \<le> 2 * radius"
      by auto
    note C = collisions_frame [OF c]
    have p': "p' = position ?b" using C pre(1) by auto
    have bl: "billBalls t ! l = Some a2" using C b by simp
    then have sl: "billBalls s ! l = Some a2" using sub [of l] by auto
    have l7: "l < 7" and li: "l \<noteq> i" using l by auto
    have "\<forall>j \<in> set [0 ..< i]. billBalls s ! j \<noteq> Some a2"
    proof
      fix j assume "j \<in> set [0 ..< i]"
      then have "j < 7" "j \<noteq> l" using i7 l by auto
      then show "billBalls s ! j \<noteq> Some a2"
        using wellFormed_distinct [OF wf l7 _ sl, of j] by auto
    qed
    then have "position (heap t ! a2) = position (heap s ! a2)" by (rule posF)
    moreover have "position (heap s3 ! a2) = position (heap t ! a2)" using C by simp
    ultimately have "distance (position ?b) (position (heap s ! a2)) \<le> 2 * radius"
      using d p' by simp
    then show False using far l7 li sl by blast
  qed
  show ?thesis using ut npt nh by (simp add: undisturbed_def Inr)
qed

text \<open>
  Claim C10, amended. A ball at rest whose position is inside the table, not within
  \<^verbatim>\<open>pocketRadius\<close> of a pocket and not within \<open>2 * radius\<close> of another live ball, and
  which no ball of a lower slot hits during the frame, has the same position and the
  same speed after \<^verbatim>\<open>update\<close>: its object is unchanged and its slot still holds it.
\<close>

theorem resting_ball_unchanged:
  assumes "wellFormed s" and "i < 7" and "billBalls s ! i = Some a"
    and "speed (heap s ! a) = \<lparr>X = 0, Y = 0\<rparr>"
    and "\<not> outside (position (heap s ! a))"
    and "\<forall>q \<in> set pocketsPositions. \<not> distance (position (heap s ! a)) q < pocketRadius"
    and "\<forall>l < 7. \<forall>a2. l \<noteq> i \<and> billBalls s ! l = Some a2 \<longrightarrow>
                \<not> distance (position (heap s ! a)) (position (heap s ! a2)) \<le> 2 * radius"
    and "untouchedBy dt i [0 ..< i] (charge dt s)"
    and "update dt s = Inr s'"
  shows "billBalls s' ! i = Some a \<and> heap s' ! a = heap s ! a \<and>
         position (heap s' ! a) = position (heap s ! a) \<and>
         speed (heap s' ! a) = speed (heap s ! a)"
proof -
  let ?b = "heap s ! a"
  have und: "undisturbed dt i s"
    by (rule resting_undisturbed [OF assms(1-4) assms(6) assms(5) assms(7,8)])
  have fr: "friction ?b = Inr ?b" by (rule friction_rest [OF assms(4)])
  have bd: "boundary ?b (getNextPosition ?b dt) = (?b, position ?b)"
    using assms(5) by (simp add: getNextPosition_rest [OF assms(4)] boundary_inside)
  from undisturbed_frame [OF assms(1-3) und assms(9) fr bd]
  show ?thesis by (simp add: setPosition_same)
qed

text \<open>
  The claim as stated fails: on a table with two balls, the ball of slot 0 at
  \<open>(0, 0)\<close> with speed \<open>(0.5, 0)\<close> and the ball of slot 1 at rest at \<open>(1, 0)\<close>, the
  resting ball is inside the table, away from the pockets and further than
  \<open>2 * radius\<close> from the other ball, and one frame moves it to \<open>(1.497, 0)\<close> with speed
  \<open>(0.494, 0)\<close>: the moving ball's predicted position \<open>(0.5, 0)\<close> is within
  \<open>2 * radius\<close> of it, so \<^verbatim>\<open>collide\<close> hands it the speed \<open>(0.497, 0)\<close> before its own
  turn.
\<close>

theorem resting_ball_hit_counterexample:
  "wellFormed
     \<lparr>heap = [\<lparr>position = \<lparr>X = 0, Y = 0\<rparr>, speed = \<lparr>X = 0.5, Y = 0\<rparr>, gameMesh = 0\<rparr>,
              \<lparr>position = \<lparr>X = 1, Y = 0\<rparr>, speed = \<lparr>X = 0, Y = 0\<rparr>, gameMesh = 1\<rparr>],
      billBalls = [Some 0, Some 1, None, None, None, None, None], ballToHit = 0,
      isChargingShot = False, shotChargeProgress = 0, scene = []\<rparr> \<and>
   \<not> outside \<lparr>X = 1, Y = 0\<rparr> \<and>
   \<not> pocketed 1 1
     \<lparr>heap = [\<lparr>position = \<lparr>X = 0, Y = 0\<rparr>, speed = \<lparr>X = 0.5, Y = 0\<rparr>, gameMesh = 0\<rparr>,
              \<lparr>position = \<lparr>X = 1, Y = 0\<rparr>, speed = \<lparr>X = 0, Y = 0\<rparr>, gameMesh = 1\<rparr>],
      billBalls = [Some 0, Some 1, None, None, None, None, None], ballToHit = 0,
      isChargingShot = False, shotChargeProgress = 0, scene = []\<rparr> \<and>
   \<not> distance \<lparr>X = 1, Y = 0\<rparr> \<lparr>X = 0, Y = 0\<rparr> \<le> 2 * radius \<and>
   update 1
     \<lparr>heap = [\<lparr>position = \<lparr>X = 0, Y = 0\<rparr>, speed = \<lparr>X = 0.5, Y = 0\<rparr>, gameMesh = 0\<rparr>,
              \<lparr>position = \<lparr>X = 1, Y = 0\<rparr>, speed = \<lparr>X = 0, Y = 0\<rparr>, gameMesh = 1\<rparr>],
      billBalls = [Some 0, Some 1, None, None, None, None, None], ballToHit = 0,
      isChargingShot = False, shotChargeProgress = 0, scene = []\<rparr>
   = Inr
     \<lparr>heap = [\<lparr>position = \<lparr>X = 0, Y = 0\<rparr>, speed = \<lparr>X = 0, Y = 0\<rparr>, gameMesh = 0\<rparr>,
              \<lparr>position = \<lparr>X = 1.497, Y = 0\<rparr>, speed = \<lparr>X = 0.494, Y = 0\<rparr>, gameMesh = 1\<rparr>],
      billBalls = [Some 0, Some 1, None, None, None, None, None], ballToHit = 0,
      isChargingShot = False, shotChargeProgress = 0,
      scene = [updateProgressBar 0, placeMesh 0 0 0 0, placeMesh 1 1.497 0 0]\<rparr>"
proof -
  define b0 where "b0 = \<lparr>position = \<lparr>X = 0, Y = 0\<rparr>, speed = \<lparr>X = 0.5, Y = 0\<rparr>, gameMesh = 0\<rparr>"
  define b1 where "b1 = \<lparr>position = \<lparr>X = 1, Y = 0\<rparr>, speed = \<lparr>X = 0, Y = 0\<rparr>, gameMesh = 1\<rparr>"
  define bb where "bb = [Some 0, Some 1, None, None, None, None, None :: nat option]"
  define s0 where "s0 = \<lparr>heap = [b0, b1], billBalls = bb, ballToHit = 0,
      isChargingShot = False, shotChargeProgress = 0, scene = []\<rparr>"
  define t0 where "t0 = \<lparr>heap = [b0, b1], billBalls = bb, ballToHit = 0,
      isChargingShot = False, shotChargeProgress = 0, scene = [updateProgressBar 0]\<rparr>"
  have wf0: "wellFormed s0"
    by (auto simp: wellFormed_def s0_def bb_def less7)
  have ins: "\<not> outside \<lparr>X = 1, Y = 0\<rparr>"
    by (simp add: outside_def radius_def width_def height_def)
  have np: "\<not> pocketed 1 1 s0"
    by (simp add: pocketed_def s0_def bb_def b1_def getNextPosition_def pocketsPositions_def
        distance_less_pocket width_def height_def)
  have far: "\<not> distance \<lparr>X = 1, Y = 0\<rparr> \<lparr>X = 0, Y = 0\<rparr> \<le> 2 * radius"
    by (simp add: distance_le_2radius)
  have ch: "charge 1 s0 = t0" by (simp add: charge_def s0_def t0_def)
  \<comment> \<open>the turn of slot 0\<close>
  have np0: "\<not> pocketed 1 0 t0"
    by (simp add: pocketed_def t0_def bb_def b0_def getNextPosition_def pocketsPositions_def
        distance_less_pocket width_def height_def)
  have m0: "magnitude (speed b0) = 0.5" by (simp add: b0_def magnitude_along_x)
  have slow0: "\<not> magnitude (speed b0) * magnitude (speed b0)
           \<le> frictionDeceleration * frictionDeceleration * 1.1"
    by (simp add: m0 frictionDeceleration_def)
  have ir0: "inRange (speed b0)"
    by (simp add: b0_def inRange_def floatInfinite_def)
  define c0 where "c0 = \<lparr>position = \<lparr>X = 0, Y = 0\<rparr>, speed = \<lparr>X = 0.497, Y = 0\<rparr>, gameMesh = 0\<rparr>"
  have fr0: "friction (heap t0 ! 0) = Inr c0"
    using friction_slow [OF slow0 ir0]
    by (simp add: t0_def m0 frictionDeceleration_def c0_def) (simp add: b0_def)
  have bd0: "boundary c0 (getNextPosition (heap t0 ! 0) 1) = (c0, \<lparr>X = 0.5, Y = 0\<rparr>)"
    by (simp add: t0_def b0_def getNextPosition_def boundary_def outside_def radius_def
        width_def height_def)
  define d0 where "d0 = \<lparr>position = \<lparr>X = 0, Y = 0\<rparr>, speed = \<lparr>X = 0, Y = 0\<rparr>, gameMesh = 0\<rparr>"
  define d1 where "d1 = \<lparr>position = \<lparr>X = 1, Y = 0\<rparr>, speed = \<lparr>X = 0.497, Y = 0\<rparr>, gameMesh = 1\<rparr>"
  have irg: "inRange \<lparr>X = 1, Y = 0\<rparr>"
    by (simp add: inRange_def floatSquare_def floatInfinite_def)
  have cl: "collide c0 b1 = Inr (d0, d1)"
    by (simp add: collide_def Let_def getPosition_def getSpeed_def setSpeed_def
        vectorProjecction_Inr [OF irg] c0_def b1_def d0_def d1_def)
  have col0: "collisions 0 0 [Suc 0 ..< length (billBalls t0)]
       (\<lparr>X = 0.5, Y = 0\<rparr>, t0\<lparr>heap := (heap t0)[0 := c0]\<rparr>)
     = Inr (\<lparr>X = 0, Y = 0\<rparr>, t0\<lparr>heap := [d0, d1]\<rparr>)"
    using cl
    by (simp add: t0_def bb_def upt_rec distance_le_2radius getPosition_def)
       (simp add: b1_def c0_def)
  define u0 where "u0 = \<lparr>heap = [d0, d1], billBalls = bb, ballToHit = 0,
      isChargingShot = False, shotChargeProgress = 0,
      scene = [updateProgressBar 0, placeMesh 0 0 0 0]\<rparr>"
  have slot0: "billBalls t0 ! 0 = Some 0" by (simp add: t0_def bb_def)
  have turn0: "updateBall 1 0 t0 = Inr u0"
    unfolding updateBall_moved [OF slot0 np0 fr0 bd0] col0
    by (simp add: t0_def u0_def d0_def setPosition_def)
  \<comment> \<open>the turn of slot 1\<close>
  have slot1: "billBalls u0 ! 1 = Some 1" by (simp add: u0_def bb_def)
  have np1: "\<not> pocketed 1 1 u0"
    by (simp add: pocketed_def u0_def bb_def d1_def getNextPosition_def pocketsPositions_def
        distance_less_pocket width_def height_def)
  have m1: "magnitude (speed d1) = 0.497" by (simp add: d1_def magnitude_along_x)
  have slow1: "\<not> magnitude (speed d1) * magnitude (speed d1)
           \<le> frictionDeceleration * frictionDeceleration * 1.1"
    by (simp add: m1 frictionDeceleration_def)
  have ir1: "inRange (speed d1)"
    by (simp add: d1_def inRange_def floatSquare_def floatInfinite_def)
  define c1 where "c1 = \<lparr>position = \<lparr>X = 1, Y = 0\<rparr>, speed = \<lparr>X = 0.494, Y = 0\<rparr>, gameMesh = 1\<rparr>"
  have fr1: "friction (heap u0 ! 1) = Inr c1"
    using friction_slow [OF slow1 ir1]
    by (simp add: u0_def m1 frictionDeceleration_def c1_def) (simp add: d1_def)
  have bd1: "boundary c1 (getNextPosition (heap u0 ! 1) 1) = (c1, \<lparr>X = 1.497, Y = 0\<rparr>)"
    by (simp add: u0_def d1_def getNextPosition_def boundary_def outside_def radius_def
        width_def height_def)
  have nh1: "\<forall>l \<in> set [Suc 1 ..< 7]. \<not> hits 1 1 l u0"
    by (auto simp: u0_def bb_def less7 intro!: hits_empty_partner)
  define u1 where "u1 = \<lparr>heap = [d0, \<lparr>position = \<lparr>X = 1.497, Y = 0\<rparr>, speed = \<lparr>X = 0.494, Y = 0\<rparr>, gameMesh = 1\<rparr>],
      billBalls = bb, ballToHit = 0,
      isChargingShot = False, shotChargeProgress = 0,
      scene = [updateProgressBar 0, placeMesh 0 0 0 0, placeMesh 1 1.497 0 0]\<rparr>"
  have turn1: "updateBall 1 1 u0 = Inr u1"
    using own_turn_result [OF slot1 np1 fr1 bd1 _ nh1]
    by (simp add: u0_def u1_def bb_def c1_def d1_def setPosition_def)
  \<comment> \<open>the empty slots\<close>
  have rest: "ballsLoop 1 [2 ..< 7] u1 = Inr u1"
    by (rule ballsLoop_empty) (auto simp: u1_def bb_def less7)
  have up: "[0 ..< 7] = 0 # 1 # [2 ..< 7]" by (simp add: upt_rec)
  have len: "length (billBalls s0) = 7" by (simp add: s0_def bb_def)
  have "update 1 s0 = ballsLoop 1 (0 # 1 # [2 ..< 7]) t0"
    by (simp only: update_def len ch up)
  also have "\<dots> = Inr u1"
    by (simp only: ballsLoop.simps turn0 turn1 rest sum.case)
  finally have "update 1 s0 = Inr u1" .
  then show ?thesis
    using wf0 ins np far
    unfolding s0_def u1_def b0_def b1_def d0_def bb_def by simp
qed

text \<open>
  The amended theorem on the table with the cue ball alone and at rest at the centre.
\<close>

theorem resting_ball_unchanged_witness:
  "wellFormed
     \<lparr>heap = [\<lparr>position = \<lparr>X = 0, Y = 0\<rparr>, speed = \<lparr>X = 0, Y = 0\<rparr>, gameMesh = 0\<rparr>],
      billBalls = [Some 0, None, None, None, None, None, None], ballToHit = 0,
      isChargingShot = False, shotChargeProgress = 0, scene = []\<rparr> \<and>
   \<not> outside \<lparr>X = 0, Y = 0\<rparr> \<and>
   untouchedBy 1 0 [0 ..< 0] (charge 1
     \<lparr>heap = [\<lparr>position = \<lparr>X = 0, Y = 0\<rparr>, speed = \<lparr>X = 0, Y = 0\<rparr>, gameMesh = 0\<rparr>],
      billBalls = [Some 0, None, None, None, None, None, None], ballToHit = 0,
      isChargingShot = False, shotChargeProgress = 0, scene = []\<rparr>) \<and>
   (\<exists>s'. update 1
     \<lparr>heap = [\<lparr>position = \<lparr>X = 0, Y = 0\<rparr>, speed = \<lparr>X = 0, Y = 0\<rparr>, gameMesh = 0\<rparr>],
      billBalls = [Some 0, None, None, None, None, None, None], ballToHit = 0,
      isChargingShot = False, shotChargeProgress = 0, scene = []\<rparr> = Inr s' \<and>
      billBalls s' ! 0 = Some 0 \<and>
      heap s' ! 0 = \<lparr>position = \<lparr>X = 0, Y = 0\<rparr>, speed = \<lparr>X = 0, Y = 0\<rparr>, gameMesh = 0\<rparr>)"
proof -
  define b0 where "b0 = \<lparr>position = \<lparr>X = 0, Y = 0\<rparr>, speed = \<lparr>X = 0, Y = 0\<rparr>, gameMesh = 0\<rparr>"
  define s0 where "s0 = \<lparr>heap = [b0],
      billBalls = [Some 0, None, None, None, None, None, None], ballToHit = 0,
      isChargingShot = False, shotChargeProgress = 0, scene = []\<rparr>"
  have wf0: "wellFormed s0" and al0: "\<forall>l \<in> set [0 ..< 7]. l \<noteq> 0 \<longrightarrow> billBalls s0 ! l = None"
    by (rule wellFormed_cue_alone; simp add: s0_def)+
  have slot0: "billBalls s0 ! 0 = Some 0" by (simp add: s0_def)
  have h0: "heap s0 ! 0 = b0" by (simp add: s0_def)
  have rest: "speed (heap s0 ! 0) = \<lparr>X = 0, Y = 0\<rparr>" by (simp add: h0 b0_def)
  have ins: "\<not> outside (position (heap s0 ! 0))"
    by (simp add: h0 b0_def outside_def radius_def width_def height_def)
  have npk: "\<forall>q \<in> set pocketsPositions. \<not> distance (position (heap s0 ! 0)) q < pocketRadius"
    by (simp add: h0 b0_def pocketsPositions_def distance_less_pocket width_def height_def)
  have far: "\<forall>l < 7. \<forall>a2. l \<noteq> 0 \<and> billBalls s0 ! l = Some a2 \<longrightarrow>
                \<not> distance (position (heap s0 ! 0)) (position (heap s0 ! a2)) \<le> 2 * radius"
    by (auto simp: s0_def less7)
  have ut: "untouchedBy 1 0 [0 ..< 0] (charge 1 s0)" by simp
  have np: "\<not> pocketed 1 0 s0"
    using npk by (simp add: pocketed_def slot0 getNextPosition_rest [OF rest])
  have fr: "friction (heap s0 ! 0) = Inr b0" using friction_rest [OF rest] h0 by simp
  obtain c' p where bd: "boundary b0 (getNextPosition (heap s0 ! 0) 1) = (c', p)"
    by (cases "boundary b0 (getNextPosition (heap s0 ! 0) 1)")
  from update_alone(1) [OF wf0 _ slot0 al0 np fr bd]
  obtain s' where u: "update 1 s0 = Inr s'" by simp
  from resting_ball_unchanged [OF wf0 _ slot0 rest ins npk far ut u]
  have "billBalls s' ! 0 = Some 0 \<and> heap s' ! 0 = b0" by (simp add: h0)
  then have "\<exists>s'. update 1 s0 = Inr s' \<and> billBalls s' ! 0 = Some 0 \<and> heap s' ! 0 = b0"
    using u by blast
  moreover have "\<not> outside \<lparr>X = 0, Y = 0\<rparr>" using ins by (simp add: h0 b0_def)
  ultimately have "wellFormed s0 \<and> \<not> outside \<lparr>X = 0, Y = 0\<rparr> \<and>
     untouchedBy 1 0 [0 ..< 0] (charge 1 s0) \<and>
     (\<exists>s'. update 1 s0 = Inr s' \<and> billBalls s' ! 0 = Some 0 \<and> heap s' ! 0 = b0)"
    using wf0 ut by blast
  then show ?thesis unfolding s0_def b0_def .
qed

section \<open>After a capture\<close>

lemma meshes_updateBall:
  assumes "updateBall dt j s = Inr s'" and "j < length (billBalls s)"
  shows "map gameMesh (heap s') = map gameMesh (heap s)"
  using updateBall_frame(4,5) [OF assms]
  by (intro nth_equalityI) simp_all

lemma distinct_meshes:
  assumes "distinct (map gameMesh (heap s))" and "a < length (heap s)" and "b < length (heap s)"
    and "a \<noteq> b"
  shows "gameMesh (heap s ! a) \<noteq> gameMesh (heap s ! b)"
  using assms nth_eq_iff_index_eq [of "map gameMesh (heap s)" a b] by simp

text \<open>
  The turn of a slot that does not hold the object \<open>a\<close> makes no presentation call on
  the mesh of \<open>a\<close>, provided the balls' meshes are pairwise different.
\<close>

lemma updateBall_other_mesh:
  assumes wf: "wellFormed s" and dm: "distinct (map gameMesh (heap s))"
    and al: "a < length (heap s)" and j7: "j < 7"
    and nj: "billBalls s ! j \<noteq> Some a"
    and run: "updateBall dt j s = Inr s'"
  shows "\<exists>evs. scene s' = scene s @ evs \<and> (\<forall>c \<in> set evs. \<not> onMesh (gameMesh (heap s ! a)) c)"
proof -
  have jl: "j < length (billBalls s)" using wf j7 by (simp add: wellFormed_slots)
  from updateBall_frame(9) [OF run jl]
  consider "scene s' = scene s"
    | b where "billBalls s ! j = Some b"
        "scene s' = scene s @ [destroyMesh (gameMesh (heap s ! b))]"
    | b x y where "billBalls s ! j = Some b"
        "scene s' = scene s @ [placeMesh (gameMesh (heap s ! b)) x y 0]"
    by blast
  then show ?thesis
  proof cases
    case 1
    then show ?thesis by (intro exI [of _ "[]"]) simp
  next
    case (2 b)
    have "b < length (heap s)" by (rule wellFormed_addr [OF wf j7 2(1)])
    moreover have "b \<noteq> a" using 2(1) nj by auto
    ultimately have "gameMesh (heap s ! b) \<noteq> gameMesh (heap s ! a)"
      using distinct_meshes [OF dm _ al] by simp
    then show ?thesis using 2(2)
      by (intro exI [of _ "[destroyMesh (gameMesh (heap s ! b))]"]) (simp add: onMesh_def)
  next
    case (3 b x y)
    have "b < length (heap s)" by (rule wellFormed_addr [OF wf j7 3(1)])
    moreover have "b \<noteq> a" using 3(1) nj by auto
    ultimately have "gameMesh (heap s ! b) \<noteq> gameMesh (heap s ! a)"
      using distinct_meshes [OF dm _ al] by simp
    then show ?thesis using 3(2)
      by (intro exI [of _ "[placeMesh (gameMesh (heap s ! b)) x y 0]"]) (simp add: onMesh_def)
  qed
qed

lemma ballsLoop_other_mesh:
  assumes "wellFormed s" and "distinct (map gameMesh (heap s))"
    and "a < length (heap s)" and "\<forall>j \<in> set js. j < 7 \<and> billBalls s ! j \<noteq> Some a"
    and "ballsLoop dt js s = Inr s'"
  shows "\<exists>evs. scene s' = scene s @ evs \<and> (\<forall>c \<in> set evs. \<not> onMesh (gameMesh (heap s ! a)) c)"
  using assms
proof (induction js arbitrary: s)
  case Nil
  then show ?case by simp
next
  case (Cons j js)
  from Cons.prems(5) obtain u where u: "updateBall dt j s = Inr u"
    and r: "ballsLoop dt js u = Inr s'"
    by (auto split: sum.splits)
  have j7: "j < 7" and nj: "billBalls s ! j \<noteq> Some a" using Cons.prems(4) by simp_all
  have jl: "j < length (billBalls s)" using Cons.prems(1) j7 by (simp add: wellFormed_slots)
  note f = updateBall_frame [OF u jl]
  from updateBall_other_mesh [OF Cons.prems(1-3) j7 nj u] obtain e1 where
    e1: "scene u = scene s @ e1" "\<forall>c \<in> set e1. \<not> onMesh (gameMesh (heap s ! a)) c"
    by blast
  have wu: "wellFormed u" by (rule wellFormed_updateBall [OF Cons.prems(1) j7 u])
  have du: "distinct (map gameMesh (heap u))"
    using meshes_updateBall [OF u jl] Cons.prems(2) by simp
  have au: "a < length (heap u)" using f(4) Cons.prems(3) by simp
  have nu: "\<forall>j \<in> set js. j < 7 \<and> billBalls u ! j \<noteq> Some a"
  proof
    fix k assume k: "k \<in> set js"
    then have "billBalls s ! k \<noteq> Some a" "k < 7" using Cons.prems(4) by simp_all
    moreover have "billBalls u ! k = billBalls s ! k \<or> billBalls u ! k = None"
      using f(2) [of k] f(3) by (cases "k = j") auto
    ultimately show "k < 7 \<and> billBalls u ! k \<noteq> Some a" by auto
  qed
  from Cons.IH [OF wu du au nu r] obtain e2 where
    e2: "scene s' = scene u @ e2" "\<forall>c \<in> set e2. \<not> onMesh (gameMesh (heap u ! a)) c"
    by blast
  have "gameMesh (heap u ! a) = gameMesh (heap s ! a)" by (rule f(5))
  then show ?case using e1 e2 by (intro exI [of _ "e1 @ e2"]) auto
qed

text \<open>
  Once no slot holds the object \<open>a\<close>, a frame changes neither the object nor that
  fact, and makes no presentation call on its mesh.
\<close>

lemma update_retired:
  assumes wf: "wellFormed s" and dm: "distinct (map gameMesh (heap s))"
    and al: "a < length (heap s)" and ret: "\<forall>l < 7. billBalls s ! l \<noteq> Some a"
    and run: "update dt s = Inr s'"
  shows "wellFormed s'" and "distinct (map gameMesh (heap s'))" and "a < length (heap s')"
    and "\<forall>l < 7. billBalls s' ! l \<noteq> Some a"
    and "heap s' ! a = heap s ! a"
    and "\<exists>evs. scene s' = scene s @ evs \<and> (\<forall>c \<in> set evs. \<not> onMesh (gameMesh (heap s ! a)) c)"
    and "\<forall>k. billBalls s' ! k = billBalls s ! k \<or> billBalls s' ! k = None"
proof -
  let ?t = "charge dt s"
  have len: "length (billBalls s) = 7" using wf by (rule wellFormed_slots)
  have r: "ballsLoop dt [0 ..< 7] ?t = Inr s'" using run by (simp add: update_def len)
  have wc: "wellFormed ?t" using wf by (simp add: wellFormed_charge)
  have j7: "\<forall>j \<in> set [0 ..< 7]. j < 7" by simp
  note F = ballsLoop_frame [OF r wc j7]
  show "wellFormed s'" by (rule F [THEN conjunct1])
  have sub: "billBalls s' ! k = billBalls s ! k \<or> billBalls s' ! k = None" for k
    using F [THEN conjunct2, THEN conjunct2, THEN conjunct1, THEN spec, of k]
    by (simp add: charge_fields)
  then show "\<forall>k. billBalls s' ! k = billBalls s ! k \<or> billBalls s' ! k = None" by blast
  show "\<forall>l < 7. billBalls s' ! l \<noteq> Some a"
  proof (intro allI impI)
    fix l :: nat assume "l < 7"
    then have "billBalls s ! l \<noteq> Some a" using ret by simp
    then show "billBalls s' ! l \<noteq> Some a" using sub [of l] by auto
  qed
  have hl: "length (heap s') = length (heap s)"
    using F [THEN conjunct2, THEN conjunct2, THEN conjunct2, THEN conjunct1]
    by (simp add: charge_fields)
  then show "a < length (heap s')" using al by simp
  have gm: "gameMesh (heap s' ! b) = gameMesh (heap s ! b)" for b
    using F [THEN conjunct2, THEN conjunct2, THEN conjunct2, THEN conjunct2,
      THEN conjunct1, THEN spec, of b]
    by (simp add: charge_fields)
  have "map gameMesh (heap s') = map gameMesh (heap s)"
    using hl gm by (intro nth_equalityI) simp_all
  then show "distinct (map gameMesh (heap s'))" using dm by simp
  have "\<forall>j \<in> set [0 ..< 7]. \<forall>l \<in> set [j ..< 7]. billBalls ?t ! l \<noteq> Some a"
    using ret by (simp add: charge_fields)
  then show "heap s' ! a = heap s ! a"
    using F [THEN conjunct2, THEN conjunct2, THEN conjunct2, THEN conjunct2,
      THEN conjunct2, THEN conjunct2, THEN conjunct2, THEN conjunct2, THEN conjunct2,
      THEN spec, THEN mp, of a]
    by (simp add: charge_fields)
  have nj: "\<forall>j \<in> set [0 ..< 7]. j < 7 \<and> billBalls ?t ! j \<noteq> Some a"
    using ret by (simp add: charge_fields)
  have dc: "distinct (map gameMesh (heap ?t))" "a < length (heap ?t)"
    using dm al by (simp_all add: charge_fields)
  from ballsLoop_other_mesh [OF wc dc nj r] obtain e where
    e: "scene s' = scene ?t @ e" "\<forall>c \<in> set e. \<not> onMesh (gameMesh (heap ?t ! a)) c"
    by blast
  show "\<exists>evs. scene s' = scene s @ evs \<and> (\<forall>c \<in> set evs. \<not> onMesh (gameMesh (heap s ! a)) c)"
    using e
    by (intro exI [of _ "updateProgressBar (shotChargeProgress ?t) # e"])
       (simp add: charge_fields onMesh_def)
qed

lemma released_frame:
  assumes "mouseButtonReleased mx my s = Inr s'"
  shows "billBalls s' = billBalls s" and "scene s' = scene s"
    and "length (heap s') = length (heap s)"
    and "map gameMesh (heap s') = map gameMesh (heap s)"
proof -
  let ?c = "heap s ! ballToHit s"
  from assms obtain c' where
    st: "strike ?c \<lparr>X = mx - X (getPosition ?c), Y = my - Y (getPosition ?c)\<rparr>
           (shotChargeProgress s * strikePower) = Inr c'"
    and s': "s' = s\<lparr>heap := (heap s)[ballToHit s := c'],
                    isChargingShot := False, shotChargeProgress := 0\<rparr>"
    by (auto simp: mouseButtonReleased_def Let_def split: sum.splits)
  have m: "gameMesh c' = gameMesh ?c"
    using st by (auto simp: strike_def split: sum.splits)
  show "billBalls s' = billBalls s" "scene s' = scene s"
    "length (heap s') = length (heap s)"
    by (simp_all add: s')
  show "map gameMesh (heap s') = map gameMesh (heap s)"
    using m by (intro nth_equalityI) (simp_all add: s' nth_update_cases)
qed

lemma wellFormed_same_slots:
  assumes "wellFormed s" and "billBalls s' = billBalls s"
    and "length (heap s') = length (heap s)"
  shows "wellFormed s'"
proof (rule wellFormed_cleared [OF assms(1)])
  show "length (billBalls s') = 7" using assms(1,2) by (simp add: wellFormed_slots)
  show "length (heap s') = length (heap s)" by (rule assms(3))
  show "billBalls s' ! k = billBalls s ! k \<or> billBalls s' ! k = None" for k
    by (simp add: assms(2))
qed

text \<open>
  Once no slot holds the object \<open>a\<close>, no call of the host brings it back: the slots
  are only cleared, and every later presentation call is on another mesh.
\<close>

lemma run_retired:
  assumes "wellFormed s" and "distinct (map gameMesh (heap s))"
    and "a < length (heap s)" and "\<forall>l < 7. billBalls s ! l \<noteq> Some a"
    and "run es s = Inr u"
  shows "wellFormed u \<and> distinct (map gameMesh (heap u)) \<and> a < length (heap u) \<and>
     (\<forall>l < 7. billBalls u ! l \<noteq> Some a) \<and>
     (\<forall>k. billBalls u ! k = billBalls s ! k \<or> billBalls u ! k = None) \<and>
     (\<exists>evs. scene u = scene s @ evs \<and> (\<forall>c \<in> set evs. \<not> onMesh (gameMesh (heap s ! a)) c))"
  using assms
proof (induction es arbitrary: s)
  case Nil
  then show ?case by simp
next
  case (Cons e es)
  from Cons.prems(5) obtain v where v: "handle e s = Inr v" and r: "run es v = Inr u"
    by (auto split: sum.splits)
  have step: "wellFormed v \<and> distinct (map gameMesh (heap v)) \<and> a < length (heap v) \<and>
     (\<forall>l < 7. billBalls v ! l \<noteq> Some a) \<and>
     (\<forall>k. billBalls v ! k = billBalls s ! k \<or> billBalls v ! k = None) \<and>
     (\<exists>evs. scene v = scene s @ evs \<and> (\<forall>c \<in> set evs. \<not> onMesh (gameMesh (heap s ! a)) c)) \<and>
     gameMesh (heap v ! a) = gameMesh (heap s ! a)"
  proof (cases e)
    case (Update dt)
    then have up: "update dt s = Inr v" using v by simp
    note U = update_retired [OF Cons.prems(1-4) up]
    have "gameMesh (heap v ! a) = gameMesh (heap s ! a)" by (simp only: U(5))
    then show ?thesis by (intro conjI U)
  next
    case (Pressed mx my)
    then have veq: "v = s\<lparr>isChargingShot := True\<rparr>"
      using v by (simp add: mouseButtonPressed_def)
    have w: "wellFormed v"
      by (rule wellFormed_same_slots [OF Cons.prems(1)]) (simp_all add: veq)
    have "\<exists>evs. scene v = scene s @ evs \<and> (\<forall>c \<in> set evs. \<not> onMesh (gameMesh (heap s ! a)) c)"
      by (intro exI [of _ "[]"]) (simp add: veq)
    moreover have "distinct (map gameMesh (heap v))" "a < length (heap v)"
      "\<forall>l < 7. billBalls v ! l \<noteq> Some a"
      "\<forall>k. billBalls v ! k = billBalls s ! k \<or> billBalls v ! k = None"
      "gameMesh (heap v ! a) = gameMesh (heap s ! a)"
      using Cons.prems(2-4) by (simp_all add: veq)
    ultimately show ?thesis using w by (intro conjI)
  next
    case (Released mx my)
    then have rel: "mouseButtonReleased mx my s = Inr v" using v by simp
    note R = released_frame [OF rel]
    have w: "wellFormed v" by (rule wellFormed_same_slots [OF Cons.prems(1) R(1,3)])
    have "gameMesh (heap v ! a) = map gameMesh (heap v) ! a"
      using Cons.prems(3) R(3) by simp
    also have "\<dots> = map gameMesh (heap s) ! a" by (simp only: R(4))
    also have "\<dots> = gameMesh (heap s ! a)" using Cons.prems(3) by simp
    finally have g: "gameMesh (heap v ! a) = gameMesh (heap s ! a)" .
    have "\<exists>evs. scene v = scene s @ evs \<and> (\<forall>c \<in> set evs. \<not> onMesh (gameMesh (heap s ! a)) c)"
      by (intro exI [of _ "[]"]) (simp add: R(2))
    moreover have "distinct (map gameMesh (heap v))" "a < length (heap v)"
      "\<forall>l < 7. billBalls v ! l \<noteq> Some a"
      "\<forall>k. billBalls v ! k = billBalls s ! k \<or> billBalls v ! k = None"
      using Cons.prems(2-4) by (simp_all add: R)
    ultimately show ?thesis using w g by (intro conjI)
  qed
  note wv = step [THEN conjunct1]
  note dv = step [THEN conjunct2, THEN conjunct1]
  note av = step [THEN conjunct2, THEN conjunct2, THEN conjunct1]
  note rv = step [THEN conjunct2, THEN conjunct2, THEN conjunct2, THEN conjunct1]
  note sv = step [THEN conjunct2, THEN conjunct2, THEN conjunct2, THEN conjunct2,
      THEN conjunct1, THEN spec]
  note gv = step [THEN conjunct2, THEN conjunct2, THEN conjunct2, THEN conjunct2,
      THEN conjunct2, THEN conjunct2]
  from step [THEN conjunct2, THEN conjunct2, THEN conjunct2, THEN conjunct2,
      THEN conjunct2, THEN conjunct1]
  obtain e1 where e1: "scene v = scene s @ e1"
    "\<forall>c \<in> set e1. \<not> onMesh (gameMesh (heap s ! a)) c" by blast
  note IH = Cons.IH [OF wv dv av rv r]
  from IH [THEN conjunct2, THEN conjunct2, THEN conjunct2, THEN conjunct2, THEN conjunct2]
  obtain e2 where e2: "scene u = scene v @ e2"
    "\<forall>c \<in> set e2. \<not> onMesh (gameMesh (heap v ! a)) c" by blast
  have sl: "\<forall>k. billBalls u ! k = billBalls s ! k \<or> billBalls u ! k = None"
  proof
    fix k
    have "billBalls u ! k = billBalls v ! k \<or> billBalls u ! k = None"
      by (rule IH [THEN conjunct2, THEN conjunct2, THEN conjunct2, THEN conjunct2,
        THEN conjunct1, THEN spec])
    then show "billBalls u ! k = billBalls s ! k \<or> billBalls u ! k = None"
      using sv [of k] by auto
  qed
  have ev: "\<exists>evs. scene u = scene s @ evs \<and> (\<forall>c \<in> set evs. \<not> onMesh (gameMesh (heap s ! a)) c)"
    using e1 e2 gv by (intro exI [of _ "e1 @ e2"]) auto
  show ?case
    by (intro conjI IH [THEN conjunct1] IH [THEN conjunct2, THEN conjunct1]
        IH [THEN conjunct2, THEN conjunct2, THEN conjunct1]
        IH [THEN conjunct2, THEN conjunct2, THEN conjunct2, THEN conjunct1] sl ev)
qed

text \<open>
  Claim C4. Let the frame \<open>update dt s\<close> reach the turn of slot \<open>i\<close> in state \<open>t\<close>,
  with a ball in the slot whose predicted position is within \<^verbatim>\<open>pocketRadius\<close> of a
  pocket, on a well-formed table whose balls have pairwise different meshes (each
  mesh comes from its own call of \<^verbatim>\<open>createBallMesh\<close>). Then exactly one pocket
  matches, and the ball's turn returns with one more presentation call, the
  \<^verbatim>\<open>destroyMesh\<close> of the ball's mesh, with the slot cleared and no ball object
  changed. If the frame returns, then after it and after any further calls of the
  host: the slot is empty and no slot holds the ball's object; since the frame
  began \<^verbatim>\<open>destroyMesh\<close> has been called on the mesh exactly once and no other call has
  been made on it but before that one; the ball's object after the frame is as it
  was when its turn began; and no later frame changes it.
\<close>

theorem pocketed_ball_removed_once:
  assumes wf: "wellFormed s" and dm: "distinct (map gameMesh (heap s))" and i7: "i < 7"
    and pre: "ballsLoop dt [0 ..< i] (charge dt s) = Inr t"
    and slot: "billBalls t ! i = Some a"
    and pk: "pocketed dt i t"
  shows "(\<exists>!q. q \<in> set pocketsPositions \<and>
            distance (getNextPosition (heap t ! a) dt) q < pocketRadius) \<and>
     updateBall dt i t =
       Inr (t\<lparr>scene := scene t @ [destroyMesh (gameMesh (heap t ! a))],
              billBalls := (billBalls t)[i := None]\<rparr>) \<and>
     (\<forall>s' es u. update dt s = Inr s' \<and> run es s' = Inr u \<longrightarrow>
        heap s' ! a = heap t ! a \<and>
        billBalls u ! i = None \<and> (\<forall>l < 7. billBalls u ! l \<noteq> Some a) \<and>
        (\<exists>evs1 evs2.
           scene u = scene s @ evs1 @ destroyMesh (gameMesh (heap t ! a)) # evs2 \<and>
           (\<forall>c \<in> set (evs1 @ evs2). \<not> onMesh (gameMesh (heap t ! a)) c)) \<and>
        (\<forall>dt' u'. update dt' u = Inr u' \<longrightarrow> heap u' ! a = heap u ! a))"
proof (intro conjI allI impI)
  let ?p = "getNextPosition (heap t ! a) dt"
  let ?m = "gameMesh (heap t ! a)"
  from pk slot obtain q where q: "q \<in> set pocketsPositions" "distance ?p q < pocketRadius"
    by (auto simp: pocketed_def)
  show "\<exists>!q. q \<in> set pocketsPositions \<and> distance ?p q < pocketRadius"
    using q pocket_unique [of _ q ?p] by blast
  show own: "updateBall dt i t =
       Inr (t\<lparr>scene := scene t @ [destroyMesh ?m], billBalls := (billBalls t)[i := None]\<rparr>)"
    by (rule updateBall_pocketed [OF slot pk])
  fix s' es u
  assume run: "update dt s = Inr s' \<and> run es s' = Inr u"
  let ?c = "charge dt s"
  let ?t' = "t\<lparr>scene := scene t @ [destroyMesh ?m], billBalls := (billBalls t)[i := None]\<rparr>"
  have len: "length (billBalls s) = 7" using wf by (rule wellFormed_slots)
  have wc: "wellFormed ?c" using wf by (simp add: wellFormed_charge)
  have j7: "\<forall>j \<in> set [0 ..< i]. j < 7" using i7 by simp
  note F = ballsLoop_frame [OF pre wc j7]
  have wt: "wellFormed t" by (rule F [THEN conjunct1])
  have lt: "length (billBalls t) = 7" using wt by (rule wellFormed_slots)
  have hl: "length (heap t) = length (heap s)"
    using F [THEN conjunct2, THEN conjunct2, THEN conjunct2, THEN conjunct1]
    by (simp add: charge_fields)
  have gm: "gameMesh (heap t ! b) = gameMesh (heap s ! b)" for b
    using F [THEN conjunct2, THEN conjunct2, THEN conjunct2, THEN conjunct2,
      THEN conjunct1, THEN spec, of b]
    by (simp add: charge_fields)
  have "map gameMesh (heap t) = map gameMesh (heap s)"
    using hl gm by (intro nth_equalityI) simp_all
  then have dt: "distinct (map gameMesh (heap t))" using dm by simp
  have al: "a < length (heap t)" by (rule wellFormed_addr [OF wt i7 slot])
  have sub: "billBalls t ! k = billBalls s ! k \<or> billBalls t ! k = None" for k
    using F [THEN conjunct2, THEN conjunct2, THEN conjunct1, THEN spec, of k]
    by (simp add: charge_fields)
  have ss: "billBalls s ! i = Some a" using sub [of i] slot by auto
  \<comment> \<open>the turns before the ball's own\<close>
  have nj: "\<forall>j \<in> set [0 ..< i]. j < 7 \<and> billBalls ?c ! j \<noteq> Some a"
  proof
    fix j assume "j \<in> set [0 ..< i]"
    then have j: "j < 7" "j \<noteq> i" using i7 by auto
    have "billBalls s ! j \<noteq> Some a"
      using wellFormed_distinct [OF wf i7 j(1) ss] j(2) by auto
    then show "j < 7 \<and> billBalls ?c ! j \<noteq> Some a" using j(1) by (simp add: charge_fields)
  qed
  have dc: "distinct (map gameMesh (heap ?c))" "a < length (heap ?c)"
    using dm al hl by (simp_all add: charge_fields)
  from ballsLoop_other_mesh [OF wc dc nj pre] obtain e1 where
    e1: "scene t = scene ?c @ e1" "\<forall>c \<in> set e1. \<not> onMesh (gameMesh (heap ?c ! a)) c"
    by blast
  have e1': "\<forall>c \<in> set e1. \<not> onMesh ?m c" using e1(2) gm [of a] by (simp add: charge_fields)
  \<comment> \<open>the turns after it\<close>
  from run have up: "update dt s = Inr s'" and r: "run es s' = Inr u" by simp_all
  have rest: "ballsLoop dt [Suc i ..< 7] ?t' = Inr s'"
    using up by (simp add: update_split [OF i7 len] pre own)
  have wt': "wellFormed ?t'" by (rule wellFormed_updateBall [OF wt i7 own])
  have dt': "distinct (map gameMesh (heap ?t'))" "a < length (heap ?t')"
    using dt al by simp_all
  have ret': "billBalls ?t' ! l \<noteq> Some a" if "l < 7" for l
  proof (cases "l = i")
    case True
    then show ?thesis using lt i7 by simp
  next
    case False
    then have "billBalls t ! l \<noteq> Some a"
      using wellFormed_distinct [OF wt i7 that slot] by auto
    then show ?thesis using False by simp
  qed
  have k7: "\<forall>j \<in> set [Suc i ..< 7]. j < 7" by simp
  note G = ballsLoop_frame [OF rest wt' k7]
  have ws': "wellFormed s'" by (rule G [THEN conjunct1])
  have sub': "billBalls s' ! k = billBalls ?t' ! k \<or> billBalls s' ! k = None" for k
    by (rule G [THEN conjunct2, THEN conjunct2, THEN conjunct1, THEN spec])
  have hl': "length (heap s') = length (heap t)"
    using G [THEN conjunct2, THEN conjunct2, THEN conjunct2, THEN conjunct1] by simp
  have gm': "gameMesh (heap s' ! b) = gameMesh (heap t ! b)" for b
    using G [THEN conjunct2, THEN conjunct2, THEN conjunct2, THEN conjunct2,
      THEN conjunct1, THEN spec, of b] by simp
  have "map gameMesh (heap s') = map gameMesh (heap t)"
    using hl' gm' by (intro nth_equalityI) simp_all
  then have ds': "distinct (map gameMesh (heap s'))" using dt by simp
  have as': "a < length (heap s')" using al hl' by simp
  have rs': "\<forall>l < 7. billBalls s' ! l \<noteq> Some a"
  proof (intro allI impI)
    fix l :: nat assume "l < 7"
    then show "billBalls s' ! l \<noteq> Some a" using ret' [of l] sub' [of l] by auto
  qed
  have "\<forall>j \<in> set [Suc i ..< 7]. \<forall>l \<in> set [j ..< 7]. billBalls ?t' ! l \<noteq> Some a"
  proof (intro ballI)
    fix j l assume "j \<in> set [Suc i ..< 7]" "l \<in> set [j ..< 7]"
    then have "l < 7" by simp
    then show "billBalls ?t' ! l \<noteq> Some a" by (rule ret')
  qed
  then have "heap s' ! a = heap ?t' ! a"
    by (rule G [THEN conjunct2, THEN conjunct2, THEN conjunct2, THEN conjunct2,
      THEN conjunct2, THEN conjunct2, THEN conjunct2, THEN conjunct2, THEN conjunct2,
      THEN spec, THEN mp])
  then show hs': "heap s' ! a = heap t ! a" by simp
  have nk: "\<forall>j \<in> set [Suc i ..< 7]. j < 7 \<and> billBalls ?t' ! j \<noteq> Some a"
  proof
    fix j assume "j \<in> set [Suc i ..< 7]"
    then have "j < 7" by simp
    then show "j < 7 \<and> billBalls ?t' ! j \<noteq> Some a" using ret' [of j] by blast
  qed
  from ballsLoop_other_mesh [OF wt' dt' nk rest] obtain e2 where
    e2: "scene s' = scene ?t' @ e2" "\<forall>c \<in> set e2. \<not> onMesh (gameMesh (heap ?t' ! a)) c"
    by blast
  have e2': "\<forall>c \<in> set e2. \<not> onMesh ?m c" using e2(2) by simp
  have i0: "billBalls s' ! i = None" using sub' [of i] lt i7 by simp
  \<comment> \<open>the later calls of the host\<close>
  note R = run_retired [OF ws' ds' as' rs' r]
  have "billBalls u ! i = billBalls s' ! i \<or> billBalls u ! i = None"
    by (rule R [THEN conjunct2, THEN conjunct2, THEN conjunct2, THEN conjunct2,
      THEN conjunct1, THEN spec])
  then show "billBalls u ! i = None" using i0 by auto
  show "billBalls u ! l \<noteq> Some a" if "l < 7" for l
    using R [THEN conjunct2, THEN conjunct2, THEN conjunct2, THEN conjunct1] that by blast
  from R [THEN conjunct2, THEN conjunct2, THEN conjunct2, THEN conjunct2, THEN conjunct2]
  obtain e3 where e3: "scene u = scene s' @ e3"
    "\<forall>c \<in> set e3. \<not> onMesh (gameMesh (heap s' ! a)) c" by blast
  have e3': "\<forall>c \<in> set e3. \<not> onMesh ?m c" using e3(2) hs' by simp
  let ?e1 = "updateProgressBar (shotChargeProgress ?c) # e1"
  have "scene u = scene s @ ?e1 @ destroyMesh ?m # (e2 @ e3)"
    using e1(1) e2(1) e3(1) by (simp add: charge_fields)
  moreover have "\<forall>c \<in> set (?e1 @ (e2 @ e3)). \<not> onMesh ?m c"
    using e1' e2' e3' by (auto simp: onMesh_def)
  ultimately show "\<exists>evs1 evs2. scene u = scene s @ evs1 @ destroyMesh ?m # evs2 \<and>
           (\<forall>c \<in> set (evs1 @ evs2). \<not> onMesh ?m c)"
    by blast
  fix dt' u'
  assume "update dt' u = Inr u'"
  from update_retired(5) [OF R [THEN conjunct1] R [THEN conjunct2, THEN conjunct1]
      R [THEN conjunct2, THEN conjunct2, THEN conjunct1]
      R [THEN conjunct2, THEN conjunct2, THEN conjunct2, THEN conjunct1] this]
  show "heap u' ! a = heap u ! a" .
qed


text \<open>
  The theorem on the table with the cue ball alone at \<open>(0, -3)\<close> with speed
  \<open>(0, -1)\<close>, which the frame predicts at the pocket \<open>(0, -4)\<close>: the frame makes the
  calls \<^verbatim>\<open>updateProgressBar\<close> and \<^verbatim>\<open>destroyMesh\<close> and clears the slot, and a further
  frame leaves the slot empty and the object as it was.
\<close>

theorem pocketed_ball_removed_once_witness:
  "wellFormed
     \<lparr>heap = [\<lparr>position = \<lparr>X = 0, Y = - 3\<rparr>, speed = \<lparr>X = 0, Y = - 1\<rparr>, gameMesh = 0\<rparr>],
      billBalls = [Some 0, None, None, None, None, None, None], ballToHit = 0,
      isChargingShot = False, shotChargeProgress = 0, scene = []\<rparr> \<and>
   pocketed 1 0
     \<lparr>heap = [\<lparr>position = \<lparr>X = 0, Y = - 3\<rparr>, speed = \<lparr>X = 0, Y = - 1\<rparr>, gameMesh = 0\<rparr>],
      billBalls = [Some 0, None, None, None, None, None, None], ballToHit = 0,
      isChargingShot = False, shotChargeProgress = 0, scene = [updateProgressBar 0]\<rparr> \<and>
   ballsLoop 1 [0 ..< 0] (charge 1
     \<lparr>heap = [\<lparr>position = \<lparr>X = 0, Y = - 3\<rparr>, speed = \<lparr>X = 0, Y = - 1\<rparr>, gameMesh = 0\<rparr>],
      billBalls = [Some 0, None, None, None, None, None, None], ballToHit = 0,
      isChargingShot = False, shotChargeProgress = 0, scene = []\<rparr>)
   = Inr
     \<lparr>heap = [\<lparr>position = \<lparr>X = 0, Y = - 3\<rparr>, speed = \<lparr>X = 0, Y = - 1\<rparr>, gameMesh = 0\<rparr>],
      billBalls = [Some 0, None, None, None, None, None, None], ballToHit = 0,
      isChargingShot = False, shotChargeProgress = 0, scene = [updateProgressBar 0]\<rparr> \<and>
   update 1
     \<lparr>heap = [\<lparr>position = \<lparr>X = 0, Y = - 3\<rparr>, speed = \<lparr>X = 0, Y = - 1\<rparr>, gameMesh = 0\<rparr>],
      billBalls = [Some 0, None, None, None, None, None, None], ballToHit = 0,
      isChargingShot = False, shotChargeProgress = 0, scene = []\<rparr>
   = Inr
     \<lparr>heap = [\<lparr>position = \<lparr>X = 0, Y = - 3\<rparr>, speed = \<lparr>X = 0, Y = - 1\<rparr>, gameMesh = 0\<rparr>],
      billBalls = [None, None, None, None, None, None, None], ballToHit = 0,
      isChargingShot = False, shotChargeProgress = 0,
      scene = [updateProgressBar 0, destroyMesh 0]\<rparr> \<and>
   (\<exists>u. run [Update 1]
     \<lparr>heap = [\<lparr>position = \<lparr>X = 0, Y = - 3\<rparr>, speed = \<lparr>X = 0, Y = - 1\<rparr>, gameMesh = 0\<rparr>],
      billBalls = [None, None, None, None, None, None, None], ballToHit = 0,
      isChargingShot = False, shotChargeProgress = 0,
      scene = [updateProgressBar 0, destroyMesh 0]\<rparr> = Inr u \<and>
      billBalls u ! 0 = None \<and>
      heap u ! 0 = \<lparr>position = \<lparr>X = 0, Y = - 3\<rparr>, speed = \<lparr>X = 0, Y = - 1\<rparr>, gameMesh = 0\<rparr>)"
proof -
  define b0 where "b0 = \<lparr>position = \<lparr>X = 0, Y = - 3\<rparr>, speed = \<lparr>X = 0, Y = - 1\<rparr>, gameMesh = 0\<rparr>"
  define s0 where "s0 = \<lparr>heap = [b0],
      billBalls = [Some 0, None, None, None, None, None, None], ballToHit = 0,
      isChargingShot = False, shotChargeProgress = 0, scene = []\<rparr>"
  define t0 where "t0 = \<lparr>heap = [b0],
      billBalls = [Some 0, None, None, None, None, None, None], ballToHit = 0,
      isChargingShot = False, shotChargeProgress = 0, scene = [updateProgressBar 0]\<rparr>"
  define s1 where "s1 = \<lparr>heap = [b0],
      billBalls = [None, None, None, None, None, None, None], ballToHit = 0,
      isChargingShot = False, shotChargeProgress = 0,
      scene = [updateProgressBar 0, destroyMesh 0]\<rparr>"
  have wf0: "wellFormed s0" and al0: "\<forall>l \<in> set [0 ..< 7]. l \<noteq> 0 \<longrightarrow> billBalls s0 ! l = None"
    by (rule wellFormed_cue_alone; simp add: s0_def)+
  have dm0: "distinct (map gameMesh (heap s0))" by (simp add: s0_def)
  have ch: "charge 1 s0 = t0" by (simp add: charge_def s0_def t0_def)
  have pre: "ballsLoop 1 [0 ..< 0] (charge 1 s0) = Inr t0" by (simp add: ch)
  have slot: "billBalls t0 ! 0 = Some 0" by (simp add: t0_def)
  have slot0: "billBalls s0 ! 0 = Some 0" by (simp add: s0_def)
  have pk: "pocketed 1 0 t0"
    by (simp add: pocketed_def t0_def b0_def getNextPosition_def pocketsPositions_def
        distance_less_pocket width_def height_def)
  have pk0: "pocketed 1 0 s0" using pk ch pocketed_charge [of 1 0 1 s0] by simp
  have up: "update 1 s0 = Inr s1"
    using update_alone_pocketed(1) [OF wf0 _ slot0 al0 pk0]
    by (simp add: ch) (simp add: s0_def t0_def s1_def b0_def)
  have e: "\<forall>j \<in> set [0 ..< length (billBalls s1)]. billBalls (charge 1 s1) ! j = None"
    by (auto simp: s1_def charge_fields less7)
  have r: "run [Update 1] s1 = Inr (charge 1 s1)"
    using ballsLoop_empty [OF e] by (simp add: update_def)
  note T = pocketed_ball_removed_once [OF wf0 dm0 _ pre slot pk]
  have "heap s1 ! 0 = heap t0 ! 0 \<and> billBalls (charge 1 s1) ! 0 = None"
    using T [THEN conjunct2, THEN conjunct2, THEN spec, THEN spec, THEN spec, THEN mp,
      of s1 "[Update 1]" "charge 1 s1"] up r
    by simp
  then have "\<exists>u. run [Update 1] s1 = Inr u \<and> billBalls u ! 0 = None \<and> heap u ! 0 = b0"
    using r by (intro exI [of _ "charge 1 s1"]) (simp add: charge_fields s1_def)
  then have "wellFormed s0 \<and> pocketed 1 0 t0 \<and> ballsLoop 1 [0 ..< 0] (charge 1 s0) = Inr t0 \<and>
     update 1 s0 = Inr s1 \<and>
     (\<exists>u. run [Update 1] s1 = Inr u \<and> billBalls u ! 0 = None \<and> heap u ! 0 = b0)"
    using wf0 pk pre up by blast
  then show ?thesis unfolding s0_def t0_def s1_def b0_def .
qed

section \<open>A table at rest\<close>








section \<open>The charge\<close>








section \<open>The corner\<close>

text \<open>
  Claim C3. A ball at \<open>(7.21, 3.71)\<close> reaches beyond the right edge and beyond the top
  edge, by 0.01 each. \<^verbatim>\<open>ricochet\<close> negates both components of the speed and mirrors
  \<open>y\<close> to 3.69, but the ball leaves with \<open>x = 7.21\<close>, not mirrored to 7.19: the test
  of the top edge writes the position from the locals \<^verbatim>\<open>x\<close> and \<^verbatim>\<open>y\<close> read on entry
  and so undoes the correction of \<open>x\<close> made by the test of the right edge. The ball
  still reaches beyond the right edge.
\<close>

theorem ricochet_corner_keeps_x:
  "ricochet \<lparr>position = \<lparr>X = 7.21, Y = 3.71\<rparr>, speed = \<lparr>X = 0.21, Y = 0.28\<rparr>, gameMesh = 0\<rparr>
     = \<lparr>position = \<lparr>X = 7.21, Y = 3.69\<rparr>, speed = \<lparr>X = - 0.21, Y = - 0.28\<rparr>, gameMesh = 0\<rparr> \<and>
   7.21 + radius - 0.5 * width = 0.01 \<and> 3.71 + radius - 0.5 * height = 0.01 \<and>
   7.21 - 2 * 0.01 = (7.19 :: real) \<and>
   0.5 * width < 7.21 + radius"
  by (simp add: ricochet_def Let_def getPosition_def getSpeed_def setPosition_def
      setSpeed_def radius_def width_def height_def)

lemma magnitude_21_28: "magnitude \<lparr>X = 0.21, Y = 0.28\<rparr> = 0.35"
proof -
  have "sqrt (0.35 * 0.35) = (0.35 :: real)" by (rule sqrt_square_pos) simp
  moreover have "(0.21 :: real) * 0.21 + 0.28 * 0.28 = 0.35 * 0.35" by simp
  ultimately show ?thesis unfolding magnitude_def by simp
qed

text \<open>
  Claim C2. On the table with the cue ball alone, at \<open>(7, 3.43)\<close> inside the table
  with speed \<open>(0.21, 0.28)\<close>, one frame predicts the position \<open>(7.21, 3.71)\<close>, which
  no pocket takes, and leaves the ball on the table at \<open>(7.21, 3.69)\<close>: its extent
  reaches to \<open>x = 7.51\<close>, beyond the right edge at 7.5.
\<close>

theorem update_leaves_ball_outside:
  "update 1
     \<lparr>heap = [\<lparr>position = \<lparr>X = 7, Y = 3.43\<rparr>, speed = \<lparr>X = 0.21, Y = 0.28\<rparr>, gameMesh = 0\<rparr>],
      billBalls = [Some 0, None, None, None, None, None, None], ballToHit = 0,
      isChargingShot = False, shotChargeProgress = 0, scene = []\<rparr>
   = Inr
     \<lparr>heap = [\<lparr>position = \<lparr>X = 7.21, Y = 3.69\<rparr>, speed = \<lparr>X = - 0.2082, Y = - 0.2776\<rparr>,
               gameMesh = 0\<rparr>],
      billBalls = [Some 0, None, None, None, None, None, None], ballToHit = 0,
      isChargingShot = False, shotChargeProgress = 0,
      scene = [updateProgressBar 0, placeMesh 0 7.21 3.69 0]\<rparr> \<and>
   \<not> outside \<lparr>X = 7, Y = 3.43\<rparr> \<and>
   outside \<lparr>X = 7.21, Y = 3.69\<rparr> \<and>
   7.21 + radius = 7.51 \<and> 0.5 * width = 7.5"
proof -
  define b0 where "b0 = \<lparr>position = \<lparr>X = 7, Y = 3.43\<rparr>, speed = \<lparr>X = 0.21, Y = 0.28\<rparr>, gameMesh = 0\<rparr>"
  define s0 where "s0 = \<lparr>heap = [b0],
      billBalls = [Some 0, None, None, None, None, None, None], ballToHit = 0,
      isChargingShot = False, shotChargeProgress = 0, scene = []\<rparr>"
  define c0 where "c0 = \<lparr>position = \<lparr>X = 7, Y = 3.43\<rparr>, speed = \<lparr>X = 0.2082, Y = 0.2776\<rparr>, gameMesh = 0\<rparr>"
  define c1 where "c1 = \<lparr>position = \<lparr>X = 7.21, Y = 3.69\<rparr>, speed = \<lparr>X = - 0.2082, Y = - 0.2776\<rparr>,
               gameMesh = 0\<rparr>"
  define s1 where "s1 = \<lparr>heap = [c1],
      billBalls = [Some 0, None, None, None, None, None, None], ballToHit = 0,
      isChargingShot = False, shotChargeProgress = 0,
      scene = [updateProgressBar 0, placeMesh 0 7.21 3.69 0]\<rparr>"
  have wf0: "wellFormed s0" and al0: "\<forall>l \<in> set [0 ..< 7]. l \<noteq> 0 \<longrightarrow> billBalls s0 ! l = None"
    by (rule wellFormed_cue_alone; simp add: s0_def)+
  have slot0: "billBalls s0 ! 0 = Some 0" by (simp add: s0_def)
  have h0: "heap s0 ! 0 = b0" by (simp add: s0_def)
  have np0: "\<not> pocketed 1 0 s0"
    by (simp add: pocketed_def slot0 h0 b0_def getNextPosition_def pocketsPositions_def
        distance_less_pocket width_def height_def)
  have m0: "magnitude (speed b0) = 0.35" using magnitude_21_28 by (simp add: b0_def)
  have slow: "\<not> magnitude (speed b0) * magnitude (speed b0)
           \<le> frictionDeceleration * frictionDeceleration * 1.1"
    by (simp add: m0 frictionDeceleration_def)
  have ir0: "inRange (speed b0)"
    by (simp add: b0_def inRange_def floatSquare_def floatInfinite_def)
  have fr0: "friction (heap s0 ! 0) = Inr c0"
    using friction_slow [OF slow ir0]
    by (simp add: h0 m0 frictionDeceleration_def c0_def) (simp add: b0_def)
  have bd0: "boundary c0 (getNextPosition (heap s0 ! 0) 1) = (c1, \<lparr>X = 7.21, Y = 3.69\<rparr>)"
    by (simp add: h0 b0_def c0_def c1_def getNextPosition_def boundary_def outside_def
        ricochet_def Let_def getPosition_def getSpeed_def setPosition_def setSpeed_def
        radius_def width_def height_def)
  note U0 = update_alone [OF wf0 _ slot0 al0 np0 fr0 bd0]
  have u0: "update 1 s0 = Inr s1"
    using U0(1) by (simp add: s0_def s1_def c1_def b0_def charge_def setPosition_def)
  have i0: "\<not> outside \<lparr>X = 7, Y = 3.43\<rparr>"
    by (simp add: outside_def radius_def width_def height_def)
  have o1: "outside \<lparr>X = 7.21, Y = 3.69\<rparr>"
    by (simp add: outside_def radius_def width_def height_def)
  have n: "7.21 + radius = 7.51" "0.5 * width = 7.5"
    by (simp_all add: radius_def width_def)
  have "update 1 s0 = Inr s1 \<and> \<not> outside \<lparr>X = 7, Y = 3.43\<rparr> \<and>
      outside \<lparr>X = 7.21, Y = 3.69\<rparr> \<and> 7.21 + radius = 7.51 \<and> 0.5 * width = 7.5"
    by (intro conjI u0 i0 o1 n)
  then show ?thesis unfolding s0_def s1_def b0_def c1_def .
qed

end
